theory Spec2Isabelle
  imports Main "HOL-Library.Word"
begin

unbundle bit_operations_syntax

section \<open>The ISP engine of USBasp (firmware/isp.c)\<close>

text \<open>
  The firmware runs on an 8-bit AVR: \<open>uchar\<close> and \<open>uint8_t\<close> are 8 bits wide,
  \<open>unsigned int\<close> is 16 bits wide and \<open>unsigned long\<close> is 32 bits wide.
\<close>

type_synonym u8 = "8 word"
type_synonym u16 = "16 word"
type_synonym u32 = "32 word"

subsection \<open>Constants of the headers\<close>

text \<open>
  \<open>isp.c\<close> uses macros of \<open>usbasp.h\<close> (the speed tiers), \<open>isp.h\<close> (the pins of the ISP
  port), \<open>clock.h\<close> (the tick count of one 320us window) and \<open>avr/io.h\<close> (the bits of the
  SPI registers). Their values are not part of \<open>isp.c\<close>; every function below takes them
  as the parameter \<open>c\<close>. \<open>DANGEROUS_MODE\<close> is the preprocessor switch of
  \<open>ispEnterProgrammingMode\<close>.
\<close>

record header =
  USBASP_ISP_SCK_AUTO :: u8
  USBASP_ISP_SCK_0_5 :: u8
  USBASP_ISP_SCK_32 :: u8
  USBASP_ISP_SCK_93_75 :: u8
  USBASP_ISP_SCK_187_5 :: u8
  USBASP_ISP_SCK_375 :: u8
  USBASP_ISP_SCK_750 :: u8
  USBASP_ISP_SCK_1500 :: u8
  USBASP_ISP_SCK_3000 :: u8
  ISP_RST :: nat
  ISP_MOSI :: nat
  ISP_MISO :: nat
  ISP_SCK :: nat
  SPE :: nat
  MSTR :: nat
  SPR0 :: nat
  SPR1 :: nat
  SPI2X :: nat
  CLOCK_T_320us :: u8
  DANGEROUS_MODE :: bool

text \<open>
  The values of the upstream headers for the ATmega8 build: the tiers are numbered
  0 (automatic), 1 (0.5 kHz) to 7 (32 kHz), 8 (93.75 kHz) to 13 (3 MHz); the ISP port is
  port B with RST, MOSI, MISO and SCK on bits 2 to 5; one 320us window is 60 timer ticks.
  They are used for concrete runs only.
\<close>

definition usbasp_consts :: header where
  "usbasp_consts = \<lparr>
     USBASP_ISP_SCK_AUTO = 0, USBASP_ISP_SCK_0_5 = 1, USBASP_ISP_SCK_32 = 7,
     USBASP_ISP_SCK_93_75 = 8, USBASP_ISP_SCK_187_5 = 9, USBASP_ISP_SCK_375 = 10,
     USBASP_ISP_SCK_750 = 11, USBASP_ISP_SCK_1500 = 12, USBASP_ISP_SCK_3000 = 13,
     ISP_RST = 2, ISP_MOSI = 3, ISP_MISO = 4, ISP_SCK = 5,
     SPE = 6, MSTR = 4, SPR0 = 0, SPR1 = 1, SPI2X = 0,
     CLOCK_T_320us = 60, DANGEROUS_MODE = False \<rparr>"

text \<open>\<open>(1 << n)\<close> stored into an 8-bit register.\<close>

definition bit8 :: "nat \<Rightarrow> u8" where
  "bit8 n = push_bit n 1"

subsection \<open>State, environment and observable events\<close>

text \<open>
  The function pointer \<open>ispTransmit\<close> holds one of the two transports.
\<close>

datatype transmit_fn = Fn_hw | Fn_sw

text \<open>
  What the engine does on the link, in order: a byte clocked out to the target, a call
  of \<open>clockWait\<close> with its argument, and the level driven on the reset line.
\<close>

datatype event = Tx u8 | Wait u8 | Rst bool

text \<open>
  The globals of \<open>isp.c\<close> (\<open>sck_sw_delay\<close>, \<open>isp_hiaddr\<close>), the globals it shares with
  the dispatcher (\<open>prog_sck\<close>, \<open>ispTransmit\<close>), the registers it writes, the events so
  far, and the number of reads of \<open>TIMERVALUE\<close> made by the polling loops so far.
\<close>

record isp =
  sck_sw_delay :: u8
  isp_hiaddr :: u8
  prog_sck :: u8
  ispTransmit :: transmit_fn
  SPCR :: u8
  SPSR :: u8
  ISP_DDR :: u8
  ISP_OUT :: u8
  trace :: "event list"
  treads :: nat

text \<open>
  The environment: \<open>miso e k\<close> is the byte the target shifts back during exchange
  number \<open>k\<close> (counting from 0), and \<open>clock e k\<close> is the value of the free-running tick
  counter, not yet reduced to 8 bits, at read number \<open>k\<close> of \<open>TIMERVALUE\<close>.
\<close>

record env =
  miso :: "nat \<Rightarrow> u8"
  clock :: "nat \<Rightarrow> nat"

fun is_Tx :: "event \<Rightarrow> bool" where
  "is_Tx (Tx b) = True"
| "is_Tx (Wait n) = False"
| "is_Tx (Rst l) = False"

text \<open>The number of byte exchanges made so far.\<close>

definition xfers :: "isp \<Rightarrow> nat" where
  "xfers s = length (filter is_Tx (trace s))"

definition emit :: "event list \<Rightarrow> isp \<Rightarrow> isp" where
  "emit evs s = s\<lparr>trace := trace s @ evs\<rparr>"

text \<open>\<open>TIMERVALUE\<close> is the 8-bit timer register: the tick counter modulo 256.\<close>

definition TIMERVALUE :: "env \<Rightarrow> isp \<Rightarrow> u8 \<times> isp" where
  "TIMERVALUE e s = (of_nat (clock e (treads s)), s\<lparr>treads := Suc (treads s)\<rparr>)"

text \<open>
  Modelled from the spec: \<open>clockWait\<close> lives in \<open>clock.c\<close>, which is not among the
  sources; it blocks for the given number of fixed 320us windows and has no other
  effect. The call is recorded as an event.
\<close>

definition clockWait :: "u8 \<Rightarrow> isp \<Rightarrow> isp" where
  "clockWait n s = emit [Wait n] s"

subsection \<open>Transport\<close>

definition spiHWenable :: "header \<Rightarrow> isp \<Rightarrow> isp" where
  "spiHWenable c s = s\<lparr>SPCR := SPCR s OR (bit8 (SPE c) OR bit8 (MSTR c))\<rparr>"

definition spiHWdisable :: "isp \<Rightarrow> isp" where
  "spiHWdisable s = s\<lparr>SPCR := 0\<rparr>"

text \<open>
  Both transports exchange one byte with the target, most significant bit first;
  \<open>miso e k\<close> is the byte the target presents during exchange number \<open>k\<close>.

  The hardware transport hands the byte to the peripheral, waits for its completion
  flag and returns the byte received; the wait is taken to complete. It leaves the port
  register alone.
\<close>

definition ispTransmit_hw :: "env \<Rightarrow> u8 \<Rightarrow> isp \<Rightarrow> u8 \<times> isp" where
  "ispTransmit_hw e send_byte s = (miso e (xfers s), emit [Tx send_byte] s)"

text \<open>
  The software transport. \<open>sw_bits\<close> is the loop \<open>for (i = 0; i < 8; i++)\<close>, counting the
  passes that are left, on \<open>send_byte\<close>, \<open>rec_byte\<close> and the port register. A pass puts
  bit 7 of \<open>send_byte\<close> on the data-out line, shifts \<open>send_byte\<close> and \<open>rec_byte\<close>, adds the
  level of the data-in line to \<open>rec_byte\<close>, and raises and lowers the clock line. With \<open>n\<close>
  passes left after it, the level it samples is bit \<open>n\<close> of the byte of the target.
  \<open>ispDelay\<close> is a busy-wait against the timer; it is taken to complete.
\<close>

fun sw_bits :: "header \<Rightarrow> u8 \<Rightarrow> nat \<Rightarrow> u8 \<Rightarrow> u8 \<Rightarrow> u8 \<Rightarrow> u8 \<times> u8" where
  "sw_bits c target 0 send_byte rec_byte out = (rec_byte, out)"
| "sw_bits c target (Suc n) send_byte rec_byte out =
     (let out1 = (if send_byte AND 0x80 \<noteq> 0 then out OR bit8 (ISP_MOSI c)
                  else out AND NOT (bit8 (ISP_MOSI c)));
          send1 = push_bit 1 send_byte;
          rec1 = push_bit 1 rec_byte;
          rec2 = (if bit target n then rec1 + 1 else rec1);
          out2 = out1 OR bit8 (ISP_SCK c);
          out3 = out2 AND NOT (bit8 (ISP_SCK c))
      in sw_bits c target n send1 rec2 out3)"

definition ispTransmit_sw :: "header \<Rightarrow> env \<Rightarrow> u8 \<Rightarrow> isp \<Rightarrow> u8 \<times> isp" where
  "ispTransmit_sw c e send_byte s =
     (case sw_bits c (miso e (xfers s)) 8 send_byte 0 (ISP_OUT s) of
        (rec_byte, out) \<Rightarrow> (rec_byte, emit [Tx send_byte] (s\<lparr>ISP_OUT := out\<rparr>)))"

text \<open>A call through a function pointer.\<close>

definition call :: "header \<Rightarrow> env \<Rightarrow> transmit_fn \<Rightarrow> u8 \<Rightarrow> isp \<Rightarrow> u8 \<times> isp" where
  "call c e f b s = (case f of Fn_hw \<Rightarrow> ispTransmit_hw e b s | Fn_sw \<Rightarrow> ispTransmit_sw c e b s)"

text \<open>Four calls in a row; the result is the four received bytes and the last state.\<close>

definition call4 ::
  "header \<Rightarrow> env \<Rightarrow> transmit_fn \<Rightarrow> u8 \<Rightarrow> u8 \<Rightarrow> u8 \<Rightarrow> u8 \<Rightarrow> isp \<Rightarrow> (u8 \<times> u8 \<times> u8 \<times> u8) \<times> isp" where
  "call4 c e f b0 b1 b2 b3 s =
     (case call c e f b0 s of (r0, s0) \<Rightarrow>
      case call c e f b1 s0 of (r1, s1) \<Rightarrow>
      case call c e f b2 s1 of (r2, s2) \<Rightarrow>
      case call c e f b3 s2 of (r3, s3) \<Rightarrow> ((r0, r1, r2, r3), s3))"

subsection \<open>Speed controller\<close>

text \<open>
  The \<open>switch\<close> of the hardware branch, with its fall-through cases written out.
  \<open>3 << (USBASP_ISP_SCK_32 - option)\<close> is computed in \<open>int\<close> and stored into a \<open>uchar\<close>.
  A negative shift count is undefined in C; the definition then shifts by 0.
\<close>

definition ispSetSCKOption :: "header \<Rightarrow> u8 \<Rightarrow> isp \<Rightarrow> isp" where
  "ispSetSCKOption c option0 s =
     (let option = (if option0 = USBASP_ISP_SCK_AUTO c then USBASP_ISP_SCK_1500 c else option0)
      in if option \<ge> USBASP_ISP_SCK_93_75 c then
           (let s1 = s\<lparr>ispTransmit := Fn_hw, SPSR := 0, sck_sw_delay := 1\<rparr>
            in if option = USBASP_ISP_SCK_3000 c then s1\<lparr>SPCR := 0\<rparr>
               else if option = USBASP_ISP_SCK_750 c then s1\<lparr>SPCR := bit8 (SPR0 c)\<rparr>
               else if option = USBASP_ISP_SCK_375 c then
                 s1\<lparr>SPSR := bit8 (SPI2X c), SPCR := bit8 (SPR1 c)\<rparr>
               else if option = USBASP_ISP_SCK_187_5 c then s1\<lparr>SPCR := bit8 (SPR1 c)\<rparr>
               else if option = USBASP_ISP_SCK_93_75 c then
                 s1\<lparr>SPCR := bit8 (SPR1 c) OR bit8 (SPR0 c)\<rparr>
               else s1\<lparr>SPSR := bit8 (SPI2X c), SPCR := bit8 (SPR0 c)\<rparr>)
         else
           s\<lparr>ispTransmit := Fn_sw,
             sck_sw_delay :=
               of_int (3 * 2 ^ nat (uint (USBASP_ISP_SCK_32 c) - uint option))\<rparr>)"

subsection \<open>Session manager\<close>

definition ispConnect :: "header \<Rightarrow> isp \<Rightarrow> isp" where
  "ispConnect c s =
     (let s1 = s\<lparr>ISP_DDR := ISP_DDR s OR bit8 (ISP_SCK c)\<rparr>;
          s2 = s1\<lparr>ISP_DDR := ISP_DDR s1 OR bit8 (ISP_MOSI c)\<rparr>;
          s3 = s2\<lparr>ISP_DDR := ISP_DDR s2 OR bit8 (ISP_RST c)\<rparr>;
          s4 = s3\<lparr>ISP_OUT := ISP_OUT s3 OR bit8 (ISP_MISO c)\<rparr>;
          s5 = emit [Rst True] (s4\<lparr>ISP_OUT := ISP_OUT s4 OR bit8 (ISP_RST c)\<rparr>);
          s6 = clockWait 1 s5;
          s7 = emit [Rst False] (s6\<lparr>ISP_OUT := ISP_OUT s6 AND NOT (bit8 (ISP_RST c))\<rparr>)
      in s7\<lparr>isp_hiaddr := 0xff\<rparr>)"

definition ispDisconnect :: "header \<Rightarrow> isp \<Rightarrow> isp" where
  "ispDisconnect c s =
     (let m = bit8 (ISP_RST c) OR bit8 (ISP_SCK c) OR bit8 (ISP_MOSI c);
          s1 = s\<lparr>ISP_DDR := ISP_DDR s AND NOT m\<rparr>;
          s2 = s1\<lparr>ISP_OUT := ISP_OUT s1 AND NOT m\<rparr>
      in spiHWdisable s2)"

text \<open>
  One pass through the body of the \<open>do\<close> loop up to the test of \<open>check\<close>: the reset
  pulse, the settle wait (\<open>20 / 0.320\<close> is 62.5, which becomes 62 as a \<open>uint8_t\<close>), and the
  four bytes; the result is \<open>check\<close>, the echo of the third byte.
\<close>

definition attempt :: "header \<Rightarrow> env \<Rightarrow> transmit_fn \<Rightarrow> isp \<Rightarrow> u8 \<times> isp" where
  "attempt c e spiTx s =
     (let s1 = emit [Rst True] (s\<lparr>ISP_OUT := ISP_OUT s OR bit8 (ISP_RST c)\<rparr>);
          s2 = clockWait 1 s1;
          s3 = emit [Rst False] (s2\<lparr>ISP_OUT := ISP_OUT s2 AND NOT (bit8 (ISP_RST c))\<rparr>);
          s4 = clockWait 62 s3
      in case call4 c e spiTx 0xAC 0x53 0 0 s4 of ((r0, r1, check, r3), s5) \<Rightarrow> (check, s5))"

text \<open>What follows a successful handshake, under \<open>#if DANGEROUS_MODE\<close>.\<close>

definition bump_speed :: "header \<Rightarrow> isp \<Rightarrow> isp" where
  "bump_speed c s =
     (if DANGEROUS_MODE c then
        (let s1 = spiHWdisable s;
             s2 = ispSetSCKOption c (prog_sck s1 + 1) s1
         in if ispTransmit s2 = Fn_hw then spiHWenable c s2 else s2)
      else s)"

text \<open>
  The \<open>do { ... } while (--tries)\<close> loop: \<open>Inl\<close> is the \<open>return 0\<close> from inside the loop,
  \<open>Inr\<close> is leaving the loop with \<open>tries\<close> at 0.
\<close>

function do_tries :: "header \<Rightarrow> env \<Rightarrow> transmit_fn \<Rightarrow> u8 \<Rightarrow> isp \<Rightarrow> isp + isp" where
  "do_tries c e spiTx tries s =
     (case attempt c e spiTx s of (check, s1) \<Rightarrow>
        if check = 0x53 then Inl (bump_speed c s1)
        else if tries - 1 \<noteq> 0 then do_tries c e spiTx (tries - 1) s1
        else Inr s1)"
  by pat_completeness auto
termination
proof (relation "measure (\<lambda>(c, e, spiTx, tries, s). unat (tries - 1))")
  show "wf (measure (\<lambda>(c, e, spiTx, tries, s). unat (tries - 1)))"
    by simp
next
  fix c :: header and e :: env and spiTx :: transmit_fn and tries :: u8 and s x check s1
  assume ne: "tries - 1 \<noteq> 0"
  have "unat (tries - 1 - 1) = unat (tries - 1) - 1"
    using ne by (rule unat_minus_one)
  moreover have "unat (tries - 1) \<noteq> 0"
    using ne by (simp add: unat_eq_0)
  ultimately have "unat (tries - 1 - 1) < unat (tries - 1)"
    by simp
  then show "((c, e, spiTx, tries - 1, s1), (c, e, spiTx, tries, s))
      \<in> measure (\<lambda>(c, e, spiTx, tries, s). unat (tries - 1))"
    by simp
qed

declare do_tries.simps [simp del]

text \<open>The \<open>while (prog_sck >= USBASP_ISP_SCK_0_5)\<close> loop and the \<open>return 1\<close> after it.\<close>

partial_function (option) tier_loop :: "header \<Rightarrow> env \<Rightarrow> isp \<Rightarrow> (u8 \<times> isp) option" where
  "tier_loop c e s =
     (if prog_sck s \<ge> USBASP_ISP_SCK_0_5 c then
        (let spiTx = ispTransmit s;
             s1 = (if ispTransmit s = Fn_hw then spiHWenable c s else s)
         in case do_tries c e spiTx 3 s1 of
              Inl s2 \<Rightarrow> Some (0, s2)
            | Inr s2 \<Rightarrow>
                (let s3 = spiHWdisable s2;
                     s4 = s3\<lparr>prog_sck := prog_sck s3 - 1\<rparr>
                 in tier_loop c e (ispSetSCKOption c (prog_sck s4) s4)))
      else Some (1, s))"

definition ispEnterProgrammingMode :: "header \<Rightarrow> env \<Rightarrow> isp \<Rightarrow> (u8 \<times> isp) option" where
  "ispEnterProgrammingMode c e s =
     tier_loop c e (if prog_sck s = 0 then s\<lparr>prog_sck := USBASP_ISP_SCK_1500 c\<rparr> else s)"

subsection \<open>Addressing tracker and memory operations\<close>

text \<open>A call of the global pointer \<open>ispTransmit\<close>, and four of them in a row.\<close>

definition transmit :: "header \<Rightarrow> env \<Rightarrow> u8 \<Rightarrow> isp \<Rightarrow> u8 \<times> isp" where
  "transmit c e b s = call c e (ispTransmit s) b s"

definition transmit4 ::
  "header \<Rightarrow> env \<Rightarrow> u8 \<Rightarrow> u8 \<Rightarrow> u8 \<Rightarrow> u8 \<Rightarrow> isp \<Rightarrow> (u8 \<times> u8 \<times> u8 \<times> u8) \<times> isp" where
  "transmit4 c e b0 b1 b2 b3 s =
     (case transmit c e b0 s of (r0, s0) \<Rightarrow>
      case transmit c e b1 s0 of (r1, s1) \<Rightarrow>
      case transmit c e b2 s1 of (r2, s2) \<Rightarrow>
      case transmit c e b3 s2 of (r3, s3) \<Rightarrow> ((r0, r1, r2, r3), s3))"

definition ispUpdateExtended :: "header \<Rightarrow> env \<Rightarrow> u32 \<Rightarrow> isp \<Rightarrow> isp" where
  "ispUpdateExtended c e address s =
     (let curr_hiaddr = (ucast (drop_bit 17 address) :: u8)
      in if isp_hiaddr s \<noteq> curr_hiaddr then
           (let s1 = s\<lparr>isp_hiaddr := curr_hiaddr\<rparr>
            in snd (transmit4 c e 0x4D 0x00 (isp_hiaddr s1) 0x00 s1))
         else s)"

definition ispReadFlash :: "header \<Rightarrow> env \<Rightarrow> u32 \<Rightarrow> isp \<Rightarrow> u8 \<times> isp" where
  "ispReadFlash c e address s =
     (let s1 = ispUpdateExtended c e address s
      in case transmit4 c e (ucast (0x20 OR push_bit 3 (address AND 1)))
                (ucast (drop_bit 9 address)) (ucast (drop_bit 1 address)) 0 s1 of
           ((r0, r1, r2, r3), s2) \<Rightarrow> (r3, s2))"

text \<open>
  The polling loop \<open>while (retries != 0)\<close> of \<open>ispWriteFlash\<close> and of \<open>ispFlushPage\<close>,
  with the \<open>return 1\<close> after it. The two loops differ in the value the readback is
  compared with only (0x7F and 0xFF), which is the parameter \<open>busy\<close>. The loop leaves
  only when a readback differs or \<open>retries\<close> has reached 0, and \<open>retries\<close> goes down only
  when the timer test holds: the loop need not return, so its value is an option.
\<close>

partial_function (option) poll_flash ::
  "header \<Rightarrow> env \<Rightarrow> u8 \<Rightarrow> u32 \<Rightarrow> u8 \<Rightarrow> u8 \<Rightarrow> isp \<Rightarrow> (u8 \<times> isp) option" where
  "poll_flash c e busy address retries starttime s =
     (if retries \<noteq> 0 then
        (case ispReadFlash c e address s of (r, s1) \<Rightarrow>
           if r \<noteq> busy then Some (0, s1)
           else (case TIMERVALUE e s1 of (t, s2) \<Rightarrow>
                   if t - starttime > CLOCK_T_320us c then
                     (case TIMERVALUE e s2 of (t', s3) \<Rightarrow>
                        poll_flash c e busy address (retries - 1) t' s3)
                   else poll_flash c e busy address retries starttime s2))
      else Some (1, s))"

definition ispWriteFlash ::
  "header \<Rightarrow> env \<Rightarrow> u32 \<Rightarrow> u8 \<Rightarrow> u8 \<Rightarrow> isp \<Rightarrow> (u8 \<times> isp) option" where
  "ispWriteFlash c e address data pollmode s =
     (let s1 = ispUpdateExtended c e address s;
          s2 = snd (transmit4 c e (ucast (0x40 OR push_bit 3 (address AND 1)))
                      (ucast (drop_bit 9 address)) (ucast (drop_bit 1 address)) data s1)
      in if pollmode = 0 then Some (0, s2)
         else if data = 0x7F then Some (0, clockWait 15 s2)
         else (case TIMERVALUE e s2 of (starttime, s3) \<Rightarrow>
                 poll_flash c e 0x7F address 30 starttime s3))"

definition ispFlushPage :: "header \<Rightarrow> env \<Rightarrow> u32 \<Rightarrow> u8 \<Rightarrow> isp \<Rightarrow> (u8 \<times> isp) option" where
  "ispFlushPage c e address pollvalue s =
     (let s1 = ispUpdateExtended c e address s;
          s2 = snd (transmit4 c e 0x4C (ucast (drop_bit 9 address))
                      (ucast (drop_bit 1 address)) 0 s1)
      in if pollvalue = 0xFF then Some (0, clockWait 15 s2)
         else (case TIMERVALUE e s2 of (starttime, s3) \<Rightarrow>
                 poll_flash c e 0xFF address 30 starttime s3))"

definition ispReadEEPROM :: "header \<Rightarrow> env \<Rightarrow> u16 \<Rightarrow> isp \<Rightarrow> u8 \<times> isp" where
  "ispReadEEPROM c e address s =
     (case transmit4 c e 0xA0 (ucast (drop_bit 8 address)) (ucast address) 0 s of
        ((r0, r1, r2, r3), s1) \<Rightarrow> (r3, s1))"

definition ispWriteEEPROM :: "header \<Rightarrow> env \<Rightarrow> u16 \<Rightarrow> u8 \<Rightarrow> isp \<Rightarrow> u8 \<times> isp" where
  "ispWriteEEPROM c e address data s =
     (case transmit4 c e 0xC0 (ucast (drop_bit 8 address)) (ucast address) data s of
        ((r0, r1, r2, r3), s1) \<Rightarrow> (0, clockWait 30 s1))"

subsection \<open>The command sequences on the wire\<close>

text \<open>
  The high byte of an address as \<open>ispUpdateExtended\<close> computes it, the four bytes of
  each command, and the bytes \<open>ispUpdateExtended\<close> puts on the wire in a given state.
\<close>

definition hi_byte :: "u32 \<Rightarrow> u8" where
  "hi_byte a = ucast (drop_bit 17 a)"

definition load_ext :: "u8 \<Rightarrow> event list" where
  "load_ext h = [Tx 0x4D, Tx 0x00, Tx h, Tx 0x00]"

definition ext_seq :: "u32 \<Rightarrow> isp \<Rightarrow> event list" where
  "ext_seq a s = (if hi_byte a \<noteq> isp_hiaddr s then load_ext (hi_byte a) else [])"

definition read_cmd :: "u32 \<Rightarrow> event list" where
  "read_cmd a = [Tx (ucast (0x20 OR push_bit 3 (a AND 1))), Tx (ucast (drop_bit 9 a)),
                 Tx (ucast (drop_bit 1 a)), Tx 0]"

definition write_cmd :: "u32 \<Rightarrow> u8 \<Rightarrow> event list" where
  "write_cmd a d = [Tx (ucast (0x40 OR push_bit 3 (a AND 1))), Tx (ucast (drop_bit 9 a)),
                    Tx (ucast (drop_bit 1 a)), Tx d]"

definition page_cmd :: "u32 \<Rightarrow> event list" where
  "page_cmd a = [Tx 0x4C, Tx (ucast (drop_bit 9 a)), Tx (ucast (drop_bit 1 a)), Tx 0]"

definition enable_cmd :: "event list" where
  "enable_cmd = [Tx 0xAC, Tx 0x53, Tx 0, Tx 0]"

text \<open>The bytes clocked out, in order.\<close>

fun bytes :: "event list \<Rightarrow> u8 list" where
  "bytes [] = []"
| "bytes (Tx b # evs) = b # bytes evs"
| "bytes (Wait n # evs) = bytes evs"
| "bytes (Rst l # evs) = bytes evs"

text \<open>
  Every command is four bytes long. Reading a byte sequence command by command, the
  high bytes carried by its load-extended-address commands (opcode 0x4D), in order.
\<close>

fun ext_cmds :: "u8 list \<Rightarrow> u8 list" where
  "ext_cmds (b0 # b1 # b2 # b3 # rest) =
     (if b0 = 0x4D then b2 # ext_cmds rest else ext_cmds rest)"
| "ext_cmds rest = []"

subsection \<open>A concrete board and a simulated target\<close>

text \<open>
  The state after reset of the programmer, before any call: all registers cleared, no
  speed configured, nothing on the wire yet.
\<close>

definition power_on :: isp where
  "power_on = \<lparr> sck_sw_delay = 0, isp_hiaddr = 0, prog_sck = 0, ispTransmit = Fn_hw,
     SPCR = 0, SPSR = 0, ISP_DDR = 0, ISP_OUT = 0, trace = [], treads = 0 \<rparr>"

text \<open>A target that answers 0 to every exchange; the timer advances one tick per read.\<close>

definition quiet_target :: env where
  "quiet_target = \<lparr> miso = (\<lambda>k. 0), clock = (\<lambda>k. k) \<rparr>"

subsection \<open>Sequences of operations\<close>

text \<open>
  The operations \<open>isp.c\<close> offers to the dispatcher, and running a list of them in order.
  An operation that does not return (a polling loop that never ends) gives \<open>None\<close>, and
  so does every sequence that contains it.
\<close>

datatype op =
    SetSCKOption u8
  | Connect
  | Disconnect
  | EnterProgrammingMode
  | ReadFlash u32
  | WriteFlash u32 u8 u8
  | FlushPage u32 u8
  | ReadEEPROM u16
  | WriteEEPROM u16 u8

fun exec :: "header \<Rightarrow> env \<Rightarrow> op \<Rightarrow> isp \<Rightarrow> isp option" where
  "exec c e (SetSCKOption option) s = Some (ispSetSCKOption c option s)"
| "exec c e Connect s = Some (ispConnect c s)"
| "exec c e Disconnect s = Some (ispDisconnect c s)"
| "exec c e EnterProgrammingMode s = map_option snd (ispEnterProgrammingMode c e s)"
| "exec c e (ReadFlash a) s = Some (snd (ispReadFlash c e a s))"
| "exec c e (WriteFlash a d pollmode) s = map_option snd (ispWriteFlash c e a d pollmode s)"
| "exec c e (FlushPage a pollvalue) s = map_option snd (ispFlushPage c e a pollvalue s)"
| "exec c e (ReadEEPROM a) s = Some (snd (ispReadEEPROM c e a s))"
| "exec c e (WriteEEPROM a d) s = Some (snd (ispWriteEEPROM c e a d s))"

fun run :: "header \<Rightarrow> env \<Rightarrow> op list \<Rightarrow> isp \<Rightarrow> isp option" where
  "run c e [] s = Some s"
| "run c e (x # xs) s = (case exec c e x s of None \<Rightarrow> None | Some s' \<Rightarrow> run c e xs s')"

fun is_eeprom :: "op \<Rightarrow> bool" where
  "is_eeprom (ReadEEPROM a) = True"
| "is_eeprom (WriteEEPROM a d) = True"
| "is_eeprom x = False"

text \<open>
  \<open>framed s s'\<close>: from \<open>s\<close> to \<open>s'\<close> the engine has put whole commands on the wire, and
  \<open>isp_hiaddr\<close> has followed the load-extended-address commands among them.
\<close>

definition framed :: "isp \<Rightarrow> isp \<Rightarrow> bool" where
  "framed s s' =
     (\<exists>evs. trace s' = trace s @ evs \<and> length (bytes evs) mod 4 = 0
        \<and> isp_hiaddr s' = last (isp_hiaddr s # ext_cmds (bytes evs)))"

text \<open>One handshake attempt on the wire.\<close>

definition handshake :: "event list" where
  "handshake = [Rst True, Wait 1, Rst False, Wait 62] @ enable_cmd"

subsection \<open>Notions used to state the properties of the speed ladder\<close>

text \<open>
  What \<open>isp.c\<close> takes for granted about the numbering of the tiers in \<open>usbasp.h\<close>: the
  automatic request lies below the slowest tier; the software tiers run from
  \<open>USBASP_ISP_SCK_0_5\<close> up to \<open>USBASP_ISP_SCK_32\<close> and there are at most seven of them (the
  disabled \<open>switch\<close> lists seven delays, 3 to 192); the hardware cutoff
  \<open>USBASP_ISP_SCK_93_75\<close> is the number right after \<open>USBASP_ISP_SCK_32\<close>; and the default tier
  \<open>USBASP_ISP_SCK_1500\<close> is a hardware tier.
\<close>

definition tier_layout :: "header \<Rightarrow> bool" where
  "tier_layout c =
     (USBASP_ISP_SCK_AUTO c < USBASP_ISP_SCK_0_5 c
      \<and> USBASP_ISP_SCK_0_5 c \<le> USBASP_ISP_SCK_32 c
      \<and> unat (USBASP_ISP_SCK_32 c) \<le> unat (USBASP_ISP_SCK_0_5 c) + 6
      \<and> unat (USBASP_ISP_SCK_93_75 c) = unat (USBASP_ISP_SCK_32 c) + 1
      \<and> USBASP_ISP_SCK_93_75 c \<le> USBASP_ISP_SCK_1500 c)"

text \<open>The speed settings in effect: transport, bit delay and the two SPI registers.\<close>

definition speed_config :: "isp \<Rightarrow> transmit_fn \<times> u8 \<times> u8 \<times> u8" where
  "speed_config s = (ispTransmit s, sck_sw_delay s, SPCR s, SPSR s)"

text \<open>The transport in use and its bit delay.\<close>

definition link_speed :: "isp \<Rightarrow> transmit_fn \<times> u8" where
  "link_speed s = (ispTransmit s, sck_sw_delay s)"

text \<open>
  The tier \<open>ispEnterProgrammingMode\<close> starts from, and the number of tiers from there
  down to the slowest one.
\<close>

definition start_tier :: "header \<Rightarrow> isp \<Rightarrow> u8" where
  "start_tier c s = (if prog_sck s = 0 then USBASP_ISP_SCK_1500 c else prog_sck s)"

definition tiers_from :: "header \<Rightarrow> u8 \<Rightarrow> nat" where
  "tiers_from c p =
     (if USBASP_ISP_SCK_0_5 c \<le> p then unat p - unat (USBASP_ISP_SCK_0_5 c) + 1 else 0)"

text \<open>
  Attempt number \<open>j\<close> (from 0) of a run of handshake attempts that starts at exchange
  \<open>base\<close> makes the exchanges \<open>base + 4 * j\<close> to \<open>base + 4 * j + 3\<close>; the echo it tests is
  the answer to the third of them. \<open>first_echo e base n\<close> is the first of the attempts
  0 to \<open>n - 1\<close> whose echo is 0x53, if there is one.
\<close>

fun first_echo :: "env \<Rightarrow> nat \<Rightarrow> nat \<Rightarrow> nat option" where
  "first_echo e base 0 = None"
| "first_echo e base (Suc n) =
     (if miso e (base + 2) = 0x53 then Some 0
      else map_option Suc (first_echo e (base + 4) n))"

text \<open>The state after \<open>k\<close> handshake attempts in a row.\<close>

fun attempts :: "header \<Rightarrow> env \<Rightarrow> transmit_fn \<Rightarrow> nat \<Rightarrow> isp \<Rightarrow> isp" where
  "attempts c e f 0 s = s"
| "attempts c e f (Suc k) s = attempts c e f k (snd (attempt c e f s))"

text \<open>
  A target that answers 0x53 to every exchange, and one that answers 0 until exchange
  132 (the first exchange of the 34th attempt) and 0x53 from then on.
\<close>

definition eager_target :: env where
  "eager_target = \<lparr> miso = (\<lambda>k. 0x53), clock = (\<lambda>k. k) \<rparr>"

definition slow_target :: env where
  "slow_target = \<lparr> miso = (\<lambda>k. if 132 \<le> k then 0x53 else 0), clock = (\<lambda>k. k) \<rparr>"

subsection \<open>Notions used to state the properties of the polling loop\<close>






section \<open>Basic facts about the transport\<close>

lemma xfers_emit_Tx: "xfers (emit [Tx b] s) = Suc (xfers s)"
  by (simp add: xfers_def emit_def)

lemma take_bit_Suc_word:
  "take_bit (Suc n) (w :: u8) = push_bit n (of_bool (bit w n)) OR take_bit n w"
  by (rule bit_word_eqI) (auto simp add: bit_simps less_Suc_eq)

lemma shift_in_bit:
  "(if b then push_bit 1 (r :: u8) + 1 else push_bit 1 r) = push_bit 1 r OR of_bool b"
  by (simp add: one_or_eq word_bw_comms(2))

text \<open>
  What the bit loop has received: the bits it had, moved up, and the low bits of the
  byte of the target. After eight passes that is the byte of the target.
\<close>

lemma sw_bits_fst:
  "fst (sw_bits c target n send_byte rec_byte out) = push_bit n rec_byte OR take_bit n target"
proof (induction n arbitrary: send_byte rec_byte out)
  case 0
  then show ?case by simp
next
  case (Suc n)
  define r2 where "r2 = (if bit target n then push_bit 1 rec_byte + 1 else push_bit 1 rec_byte)"
  have r2: "r2 = push_bit 1 rec_byte OR of_bool (bit target n)"
    unfolding r2_def by (rule shift_in_bit)
  have "push_bit n r2 OR take_bit n target
      = push_bit (Suc n) rec_byte OR (push_bit n (of_bool (bit target n)) OR take_bit n target)"
    by (simp add: r2 push_bit_or push_bit_push_bit or.assoc flip: push_bit_eq_mult)
  then have "push_bit n r2 OR take_bit n target
      = push_bit (Suc n) rec_byte OR take_bit (Suc n) target"
    by (simp only: take_bit_Suc_word)
  moreover have "fst (sw_bits c target (Suc n) send_byte rec_byte out)
      = push_bit n r2 OR take_bit n target"
    using Suc.IH by (simp add: Let_def r2_def)
  ultimately show ?case
    by simp
qed

lemma sw_bits_8: "fst (sw_bits c target 8 send_byte 0 out) = target"
proof -
  have "take_bit 8 target = target"
    by (rule take_bit_word_eq_self) simp
  then show ?thesis
    by (simp add: sw_bits_fst)
qed

lemma call_fst: "fst (call c e f b s) = miso e (xfers s)"
  by (cases f) (simp_all add: call_def ispTransmit_hw_def ispTransmit_sw_def split_beta sw_bits_8)

lemma call_trace: "trace (snd (call c e f b s)) = trace s @ [Tx b]"
  by (cases f) (simp_all add: call_def ispTransmit_hw_def ispTransmit_sw_def emit_def split_beta)

lemma call_xfers: "xfers (snd (call c e f b s)) = Suc (xfers s)"
  by (simp add: xfers_def call_trace)

lemma call_frame:
  "isp_hiaddr (snd (call c e f b s)) = isp_hiaddr s"
  "ispTransmit (snd (call c e f b s)) = ispTransmit s"
  "prog_sck (snd (call c e f b s)) = prog_sck s"
  "treads (snd (call c e f b s)) = treads s"
  "sck_sw_delay (snd (call c e f b s)) = sck_sw_delay s"
  "SPCR (snd (call c e f b s)) = SPCR s"
  "SPSR (snd (call c e f b s)) = SPSR s"
  "ISP_DDR (snd (call c e f b s)) = ISP_DDR s"
  by (cases f; simp add: call_def ispTransmit_hw_def ispTransmit_sw_def emit_def split_beta)+

lemma call4_fst:
  "fst (call4 c e f b0 b1 b2 b3 s) =
     (miso e (xfers s), miso e (xfers s + 1), miso e (xfers s + 2), miso e (xfers s + 3))"
proof -
  obtain r0 s0 where c0: "call c e f b0 s = (r0, s0)" by force
  obtain r1 s1 where c1: "call c e f b1 s0 = (r1, s1)" by force
  obtain r2 s2 where c2: "call c e f b2 s1 = (r2, s2)" by force
  obtain r3 s3 where c3: "call c e f b3 s2 = (r3, s3)" by force
  have "r0 = miso e (xfers s)" "xfers s0 = Suc (xfers s)"
    using call_fst [of c e f b0 s] call_xfers [of c e f b0 s] c0 by simp_all
  moreover have "r1 = miso e (xfers s0)" "xfers s1 = Suc (xfers s0)"
    using call_fst [of c e f b1 s0] call_xfers [of c e f b1 s0] c1 by simp_all
  moreover have "r2 = miso e (xfers s1)" "xfers s2 = Suc (xfers s1)"
    using call_fst [of c e f b2 s1] call_xfers [of c e f b2 s1] c2 by simp_all
  moreover have "r3 = miso e (xfers s2)"
    using call_fst [of c e f b3 s2] c3 by simp
  ultimately show ?thesis
    by (simp add: call4_def c0 c1 c2 c3 numeral_3_eq_3 numeral_2_eq_2)
qed

lemma call4_snd:
  "snd (call4 c e f b0 b1 b2 b3 s) =
     snd (call c e f b3 (snd (call c e f b2 (snd (call c e f b1 (snd (call c e f b0 s)))))))"
  by (simp add: call4_def split: prod.splits)

lemma call4_trace: "trace (snd (call4 c e f b0 b1 b2 b3 s)) = trace s @ [Tx b0, Tx b1, Tx b2, Tx b3]"
  by (simp add: call4_snd call_trace)

lemma call4_frame:
  "isp_hiaddr (snd (call4 c e f b0 b1 b2 b3 s)) = isp_hiaddr s"
  "ispTransmit (snd (call4 c e f b0 b1 b2 b3 s)) = ispTransmit s"
  "prog_sck (snd (call4 c e f b0 b1 b2 b3 s)) = prog_sck s"
  "treads (snd (call4 c e f b0 b1 b2 b3 s)) = treads s"
  "sck_sw_delay (snd (call4 c e f b0 b1 b2 b3 s)) = sck_sw_delay s"
  "SPCR (snd (call4 c e f b0 b1 b2 b3 s)) = SPCR s"
  "SPSR (snd (call4 c e f b0 b1 b2 b3 s)) = SPSR s"
  "ISP_DDR (snd (call4 c e f b0 b1 b2 b3 s)) = ISP_DDR s"
  by (simp_all add: call4_snd call_frame)

lemma transmit4_call4: "transmit4 c e b0 b1 b2 b3 s = call4 c e (ispTransmit s) b0 b1 b2 b3 s"
proof -
  have "\<And>b s' r s''. call c e (ispTransmit s) b s' = (r, s'') \<Longrightarrow> ispTransmit s' = ispTransmit s
     \<Longrightarrow> ispTransmit s'' = ispTransmit s"
    using call_frame(2) by (metis snd_conv)
  then show ?thesis
    by (simp add: transmit4_def call4_def transmit_def split: prod.splits) 
qed

lemma xfers_trace_app: "trace s' = trace s @ evs \<Longrightarrow> xfers s' = xfers s + length (filter is_Tx evs)"
  by (simp add: xfers_def)

lemma transmit4_fst:
  "fst (transmit4 c e b0 b1 b2 b3 s) =
     (miso e (xfers s), miso e (xfers s + 1), miso e (xfers s + 2), miso e (xfers s + 3))"
  by (simp add: transmit4_call4 call4_fst)

lemma transmit4_trace:
  "trace (snd (transmit4 c e b0 b1 b2 b3 s)) = trace s @ [Tx b0, Tx b1, Tx b2, Tx b3]"
  by (simp add: transmit4_call4 call4_trace)

lemma transmit4_frame:
  "isp_hiaddr (snd (transmit4 c e b0 b1 b2 b3 s)) = isp_hiaddr s"
  "ispTransmit (snd (transmit4 c e b0 b1 b2 b3 s)) = ispTransmit s"
  "prog_sck (snd (transmit4 c e b0 b1 b2 b3 s)) = prog_sck s"
  "treads (snd (transmit4 c e b0 b1 b2 b3 s)) = treads s"
  "sck_sw_delay (snd (transmit4 c e b0 b1 b2 b3 s)) = sck_sw_delay s"
  "SPCR (snd (transmit4 c e b0 b1 b2 b3 s)) = SPCR s"
  "SPSR (snd (transmit4 c e b0 b1 b2 b3 s)) = SPSR s"
  "ISP_DDR (snd (transmit4 c e b0 b1 b2 b3 s)) = ISP_DDR s"
  by (simp_all add: transmit4_call4 call4_frame)

lemma transmit4_xfers: "xfers (snd (transmit4 c e b0 b1 b2 b3 s)) = xfers s + 4"
  by (simp add: xfers_def transmit4_trace)

lemma clockWait_trace: "trace (clockWait n s) = trace s @ [Wait n]"
  by (simp add: clockWait_def emit_def)

lemma clockWait_frame:
  "isp_hiaddr (clockWait n s) = isp_hiaddr s"
  "ispTransmit (clockWait n s) = ispTransmit s"
  "prog_sck (clockWait n s) = prog_sck s"
  "treads (clockWait n s) = treads s"
  "xfers (clockWait n s) = xfers s"
  by (simp_all add: clockWait_def emit_def xfers_def)

lemma ispUpdateExtended_trace:
  "trace (ispUpdateExtended c e a s) = trace s @ ext_seq a s"
  by (simp add: ispUpdateExtended_def Let_def transmit4_trace ext_seq_def hi_byte_def load_ext_def)

lemma ispUpdateExtended_hiaddr: "isp_hiaddr (ispUpdateExtended c e a s) = hi_byte a"
  by (simp add: ispUpdateExtended_def Let_def transmit4_frame hi_byte_def)

lemma ispUpdateExtended_frame:
  "ispTransmit (ispUpdateExtended c e a s) = ispTransmit s"
  "prog_sck (ispUpdateExtended c e a s) = prog_sck s"
  "treads (ispUpdateExtended c e a s) = treads s"
  "sck_sw_delay (ispUpdateExtended c e a s) = sck_sw_delay s"
  "SPCR (ispUpdateExtended c e a s) = SPCR s"
  "SPSR (ispUpdateExtended c e a s) = SPSR s"
  "ISP_DDR (ispUpdateExtended c e a s) = ISP_DDR s"
  by (simp_all add: ispUpdateExtended_def Let_def transmit4_frame)

lemma ispUpdateExtended_same: "isp_hiaddr s = hi_byte a \<Longrightarrow> ispUpdateExtended c e a s = s"
  by (simp add: ispUpdateExtended_def hi_byte_def)

lemma ispReadFlash_snd:
  "snd (ispReadFlash c e a s) =
     snd (transmit4 c e (ucast (0x20 OR push_bit 3 (a AND 1))) (ucast (drop_bit 9 a))
            (ucast (drop_bit 1 a)) 0 (ispUpdateExtended c e a s))"
  by (simp add: ispReadFlash_def Let_def split: prod.splits)

lemma ispReadFlash_fst:
  "fst (ispReadFlash c e a s) = miso e (xfers (ispUpdateExtended c e a s) + 3)"
proof -
  have "fst (ispReadFlash c e a s) =
     snd (snd (snd (fst (transmit4 c e (ucast (0x20 OR push_bit 3 (a AND 1))) (ucast (drop_bit 9 a))
            (ucast (drop_bit 1 a)) 0 (ispUpdateExtended c e a s)))))"
    by (simp add: ispReadFlash_def Let_def split: prod.splits)
  then show ?thesis
    by (simp add: transmit4_fst)
qed

lemma ispReadFlash_trace:
  "trace (snd (ispReadFlash c e a s)) = trace s @ ext_seq a s @ read_cmd a"
  by (simp add: ispReadFlash_snd transmit4_trace ispUpdateExtended_trace read_cmd_def)

lemma ispReadFlash_frame:
  "isp_hiaddr (snd (ispReadFlash c e a s)) = hi_byte a"
  "ispTransmit (snd (ispReadFlash c e a s)) = ispTransmit s"
  "prog_sck (snd (ispReadFlash c e a s)) = prog_sck s"
  "treads (snd (ispReadFlash c e a s)) = treads s"
  by (simp_all add: ispReadFlash_snd transmit4_frame ispUpdateExtended_frame
      ispUpdateExtended_hiaddr)

lemma ispConnect_trace: "trace (ispConnect c s) = trace s @ [Rst True, Wait 1, Rst False]"
  by (simp add: ispConnect_def Let_def emit_def clockWait_def)

lemma ispConnect_hiaddr: "isp_hiaddr (ispConnect c s) = 0xFF"
  by (simp add: ispConnect_def Let_def emit_def clockWait_def)

section \<open>Disconnecting\<close>

text \<open>
  Claim C9. \<open>ispDisconnect\<close> is idempotent: a second call right after a first one
  returns the very state the first call left, so the direction bits, the output and
  pull-up bits and the enable state of the peripheral stay as the first call left them.
  It is a total function: no call fails. Every call clears \<open>SPCR\<close>, whatever it held
  before, clears the RST, SCK and MOSI bits of the direction and of the port register,
  and puts nothing on the wire.
\<close>

theorem ispDisconnect_idempotent:
  "ispDisconnect c (ispDisconnect c s) = ispDisconnect c s
   \<and> SPCR (ispDisconnect c s) = 0
   \<and> ISP_DDR (ispDisconnect c s) =
       ISP_DDR s AND NOT (bit8 (ISP_RST c) OR bit8 (ISP_SCK c) OR bit8 (ISP_MOSI c))
   \<and> ISP_OUT (ispDisconnect c s) =
       ISP_OUT s AND NOT (bit8 (ISP_RST c) OR bit8 (ISP_SCK c) OR bit8 (ISP_MOSI c))
   \<and> trace (ispDisconnect c s) = trace s"
  by (simp add: ispDisconnect_def spiHWdisable_def Let_def)

section \<open>EEPROM access\<close>

lemma ispWriteEEPROM_result:
  "fst (ispWriteEEPROM c e a d s) = 0"
  "trace (snd (ispWriteEEPROM c e a d s)) =
     trace s @ [Tx 0xC0, Tx (ucast (drop_bit 8 a)), Tx (ucast a), Tx d, Wait 30]"
  "isp_hiaddr (snd (ispWriteEEPROM c e a d s)) = isp_hiaddr s"
  "treads (snd (ispWriteEEPROM c e a d s)) = treads s"
proof -
  have *: "ispWriteEEPROM c e a d s =
      (0, clockWait 30 (snd (transmit4 c e 0xC0 (ucast (drop_bit 8 a)) (ucast a) d s)))"
    by (simp add: ispWriteEEPROM_def split: prod.splits)
  show "fst (ispWriteEEPROM c e a d s) = 0" 
    by (simp add: *)
  show "trace (snd (ispWriteEEPROM c e a d s)) =
     trace s @ [Tx 0xC0, Tx (ucast (drop_bit 8 a)), Tx (ucast a), Tx d, Wait 30]"
    by (simp add: * clockWait_trace transmit4_trace)
  show "isp_hiaddr (snd (ispWriteEEPROM c e a d s)) = isp_hiaddr s"
    by (simp add: * clockWait_frame transmit4_frame)
  show "treads (snd (ispWriteEEPROM c e a d s)) = treads s"
    by (simp add: * clockWait_frame transmit4_frame)
qed

lemma ispReadEEPROM_result:
  "fst (ispReadEEPROM c e a s) = miso e (xfers s + 3)"
  "trace (snd (ispReadEEPROM c e a s)) =
     trace s @ [Tx 0xA0, Tx (ucast (drop_bit 8 a)), Tx (ucast a), Tx 0]"
  "isp_hiaddr (snd (ispReadEEPROM c e a s)) = isp_hiaddr s"
  "treads (snd (ispReadEEPROM c e a s)) = treads s"
proof -
  have *: "snd (ispReadEEPROM c e a s) =
      snd (transmit4 c e 0xA0 (ucast (drop_bit 8 a)) (ucast a) 0 s)"
    by (simp add: ispReadEEPROM_def split: prod.splits)
  have "fst (ispReadEEPROM c e a s) =
      snd (snd (snd (fst (transmit4 c e 0xA0 (ucast (drop_bit 8 a)) (ucast a) 0 s))))"
    by (simp add: ispReadEEPROM_def split: prod.splits)
  then show "fst (ispReadEEPROM c e a s) = miso e (xfers s + 3)"
    by (simp add: transmit4_fst)
  show "trace (snd (ispReadEEPROM c e a s)) =
     trace s @ [Tx 0xA0, Tx (ucast (drop_bit 8 a)), Tx (ucast a), Tx 0]"
    by (simp add: * transmit4_trace)
  show "isp_hiaddr (snd (ispReadEEPROM c e a s)) = isp_hiaddr s"
    by (simp add: * transmit4_frame)
  show "treads (snd (ispReadEEPROM c e a s)) = treads s"
    by (simp add: * transmit4_frame)
qed

section \<open>Writing flash without polling\<close>

text \<open>
  Claim C5. For every address, \<open>ispWriteFlash\<close> called with data 0x7F and a polling
  flag other than 0 returns success (0) after the write sequence and one
  \<open>clockWait(15)\<close>: what it appends to the events is the load-extended-address command
  if the high byte changed, the 4-byte write command and the wait, with no read command,
  and it does not read the timer. With the polling flag 0 it returns success right after
  the 4-byte write command, for any data byte, with no wait and no readback.
\<close>

theorem ispWriteFlash_no_poll:
  "(pollmode \<noteq> 0 \<longrightarrow>
      (\<exists>s'. ispWriteFlash c e a 0x7F pollmode s = Some (0, s')
         \<and> trace s' = trace s @ ext_seq a s @ write_cmd a 0x7F @ [Wait 15]
         \<and> treads s' = treads s))
   \<and> (\<exists>s'. ispWriteFlash c e a d 0 s = Some (0, s')
         \<and> trace s' = trace s @ ext_seq a s @ write_cmd a d
         \<and> treads s' = treads s)"
  by (simp add: ispWriteFlash_def Let_def clockWait_trace clockWait_frame
      transmit4_frame transmit4_trace ispUpdateExtended_frame ispUpdateExtended_trace write_cmd_def)


text \<open>
  A run of the first case on the concrete board, right after \<open>ispConnect\<close>.
\<close>

theorem ispWriteFlash_no_poll_witness:
  "\<exists>s'. ispWriteFlash usbasp_consts quiet_target 0 0x7F 1 (ispConnect usbasp_consts power_on) = Some (0, s')
     \<and> trace s' = [Rst True, Wait 1, Rst False, Tx 0x4D, Tx 0, Tx 0, Tx 0,
                    Tx 0x40, Tx 0, Tx 0, Tx 0x7F, Wait 15]"
  using ispWriteFlash_no_poll [of 1 usbasp_consts quiet_target 0 "ispConnect usbasp_consts power_on" 0]
  by (auto simp add: ispConnect_trace ispConnect_hiaddr ext_seq_def hi_byte_def load_ext_def
      write_cmd_def power_on_def)

section \<open>Result values\<close>






section \<open>The extended-address command\<close>

lemma hi_byte_below:
  assumes "a < 0x1FE0000"
  shows "hi_byte a \<noteq> 0xFF"
proof -
  have "unat a < 0x1FE0000"
    using assms by (simp add: word_less_nat_alt)
  then have "unat a div 2 ^ 17 < 255"
    by simp
  moreover have "unat (drop_bit 17 a) = drop_bit 17 (unat a)"
    by (rule unat_drop_bit_eq)
  moreover have "drop_bit 17 (unat a) = unat a div 2 ^ 17"
    by (rule drop_bit_eq_div)
  ultimately have lt: "unat (drop_bit 17 a) < 255"
    by simp
  have "unat (hi_byte a) = unat (drop_bit 17 a) mod 2 ^ 8"
    unfolding hi_byte_def by (simp add: unsigned_ucast_eq take_bit_eq_mod)
  then have "unat (hi_byte a) < 255"
    using lt by simp
  then show ?thesis
    by auto
qed

lemma TIMERVALUE_snd: "snd (TIMERVALUE e s) = s\<lparr>treads := Suc (treads s)\<rparr>"
  by (simp add: TIMERVALUE_def)

lemma TIMERVALUE_fst: "fst (TIMERVALUE e s) = of_nat (clock e (treads s))"
  by (simp add: TIMERVALUE_def)

lemma ispReadFlash_same_hi:
  assumes "isp_hiaddr s = hi_byte a"
  shows "trace (snd (ispReadFlash c e a s)) = trace s @ read_cmd a"
    and "fst (ispReadFlash c e a s) = miso e (xfers s + 3)"
  using assms
  by (simp_all add: ispReadFlash_trace ispReadFlash_fst ext_seq_def ispUpdateExtended_same)

text \<open>
  Whenever the polling loop returns, it has put read commands on the wire and nothing
  else, and the cached high byte and the speed settings are as before.
\<close>

lemma poll_flash_trace:
  assumes "poll_flash c e busy a retries starttime s = Some y"
  shows "isp_hiaddr s = hi_byte a \<longrightarrow>
    (\<exists>n. trace (snd y) = trace s @ concat (replicate n (read_cmd a)))
    \<and> isp_hiaddr (snd y) = hi_byte a"
proof (rule poll_flash.raw_induct
    [where P = "\<lambda>c e busy a retries starttime s y. isp_hiaddr s = hi_byte a \<longrightarrow>
    (\<exists>n. trace (snd y) = trace s @ concat (replicate n (read_cmd a)))
    \<and> isp_hiaddr (snd y) = hi_byte a", OF _ assms])
  fix poll c e busy address retries starttime s and y :: "u8 \<times> isp"
  assume IH: "\<And>c e busy a retries starttime s y.
      poll c e busy a retries starttime s = Some y \<Longrightarrow> isp_hiaddr s = hi_byte a \<longrightarrow>
    (\<exists>n. trace (snd y) = trace s @ concat (replicate n (read_cmd a)))
    \<and> isp_hiaddr (snd y) = hi_byte a"
    and body: "(if retries \<noteq> 0
      then case ispReadFlash c e address s of
           (r, s1) \<Rightarrow>
             if r \<noteq> busy then Some (0, s1)
             else case TIMERVALUE e s1 of
                  (t, s2) \<Rightarrow>
                    if CLOCK_T_320us c < t - starttime
                    then case TIMERVALUE e s2 of
                         (t', s3) \<Rightarrow> poll c e busy address (retries - 1) t' s3
                    else poll c e busy address retries starttime s2
      else Some (1, s)) = Some y"
  show "isp_hiaddr s = hi_byte address \<longrightarrow>
    (\<exists>n. trace (snd y) = trace s @ concat (replicate n (read_cmd address)))
    \<and> isp_hiaddr (snd y) = hi_byte address"
  proof
    assume hi: "isp_hiaddr s = hi_byte address"
    show "(\<exists>n. trace (snd y) = trace s @ concat (replicate n (read_cmd address)))
      \<and> isp_hiaddr (snd y) = hi_byte address"
    proof (cases "retries = 0")
      case True
      with body have y: "y = (1, s)" by simp
      have "\<exists>n. trace (snd y) = trace s @ concat (replicate n (read_cmd address))"
        by (rule exI [of _ 0]) (simp add: y)
      then show ?thesis using hi y by simp
    next
      case False
      obtain r s1 where rd: "ispReadFlash c e address s = (r, s1)" by force
      have t1: "trace s1 = trace s @ read_cmd address"
        using ispReadFlash_same_hi(1) [OF hi, of c e] rd by simp
      have h1: "isp_hiaddr s1 = hi_byte address"
        using ispReadFlash_frame(1) [of c e address s] rd by simp
      have one: "trace s1 = trace s @ concat (replicate 1 (read_cmd address))"
        using t1 by simp
      show ?thesis
      proof (cases "r \<noteq> busy")
        case True
        with body False rd have y: "y = (0, s1)" by simp
        have "\<exists>n. trace (snd y) = trace s @ concat (replicate n (read_cmd address))"
          by (rule exI [of _ 1]) (simp add: y t1)
        then show ?thesis using h1 y by simp
      next
        case busy: False
        obtain t s2 where tv: "TIMERVALUE e s1 = (t, s2)" by force
        have s2: "trace s2 = trace s1" "isp_hiaddr s2 = isp_hiaddr s1"
          using TIMERVALUE_snd [of e s1] tv by simp_all
        obtain t' s3 where tv': "TIMERVALUE e s2 = (t', s3)" by force
        have s3: "trace s3 = trace s1" "isp_hiaddr s3 = isp_hiaddr s1"
          using TIMERVALUE_snd [of e s2] tv' s2 by simp_all
        have "\<exists>s'. (s' = s2 \<or> s' = s3) \<and> (\<exists>r' st'. poll c e busy address r' st' s' = Some y)"
          using body False rd busy tv tv' by (auto split: if_splits)
        then obtain s' r' st' where s': "s' = s2 \<or> s' = s3"
          and p: "poll c e busy address r' st' s' = Some y" by blast
        have ts': "trace s' = trace s1" "isp_hiaddr s' = hi_byte address"
          using s' s2 s3 h1 by auto
        from IH [OF p] ts' obtain n where
          n: "trace (snd y) = trace s' @ concat (replicate n (read_cmd address))"
          and hy: "isp_hiaddr (snd y) = hi_byte address" by blast
        have "\<exists>n. trace (snd y) = trace s @ concat (replicate n (read_cmd address))"
          by (rule exI [of _ "Suc n"]) (simp add: n ts' t1)
        then show ?thesis using hy by simp
      qed
    qed
  qed
qed


lemma ispWriteFlash_prefix:
  assumes "ispWriteFlash c e a d pm s = Some y"
  shows "\<exists>rest. trace (snd y) = trace s @ ext_seq a s @ write_cmd a d @ rest"
proof -
  define s2 where "s2 = snd (transmit4 c e (ucast (0x40 OR push_bit 3 (a AND 1)))
      (ucast (drop_bit 9 a)) (ucast (drop_bit 1 a)) d (ispUpdateExtended c e a s))"
  have t2: "trace s2 = trace s @ ext_seq a s @ write_cmd a d"
    unfolding s2_def by (simp add: transmit4_trace ispUpdateExtended_trace write_cmd_def)
  have h2: "isp_hiaddr s2 = hi_byte a"
    unfolding s2_def by (simp add: transmit4_frame ispUpdateExtended_hiaddr)
  have cases: "y = (0, s2) \<or> y = (0, clockWait 15 s2)
      \<or> poll_flash c e 0x7F a 30 (fst (TIMERVALUE e s2)) (snd (TIMERVALUE e s2)) = Some y"
    using assms unfolding ispWriteFlash_def Let_def s2_def [symmetric]
    by (auto split: if_splits prod.splits)
  have "trace (snd (TIMERVALUE e s2)) = trace s2" "isp_hiaddr (snd (TIMERVALUE e s2)) = hi_byte a"
    using h2 by (simp_all add: TIMERVALUE_snd)
  then have "poll_flash c e 0x7F a 30 (fst (TIMERVALUE e s2)) (snd (TIMERVALUE e s2)) = Some y
      \<Longrightarrow> \<exists>rest. trace (snd y) = trace s2 @ rest"
    using poll_flash_trace [of c e "0x7F" a 30 "fst (TIMERVALUE e s2)" "snd (TIMERVALUE e s2)" y]
    by auto
  moreover have "y = (0, s2) \<Longrightarrow> trace (snd y) = trace s2 @ []"
    by simp
  moreover have "y = (0, clockWait 15 s2) \<Longrightarrow> trace (snd y) = trace s2 @ [Wait 15]"
    by (simp add: clockWait_trace)
  ultimately have "\<exists>rest. trace (snd y) = trace s2 @ rest"
    using cases by blast
  then show ?thesis
    using t2 by auto
qed

lemma ispFlushPage_prefix:
  assumes "ispFlushPage c e a pv s = Some y"
  shows "\<exists>rest. trace (snd y) = trace s @ ext_seq a s @ page_cmd a @ rest"
proof -
  define s2 where "s2 = snd (transmit4 c e 0x4C
      (ucast (drop_bit 9 a)) (ucast (drop_bit 1 a)) 0 (ispUpdateExtended c e a s))"
  have t2: "trace s2 = trace s @ ext_seq a s @ page_cmd a"
    unfolding s2_def by (simp add: transmit4_trace ispUpdateExtended_trace page_cmd_def)
  have h2: "isp_hiaddr s2 = hi_byte a"
    unfolding s2_def by (simp add: transmit4_frame ispUpdateExtended_hiaddr)
  have cases: "y = (0, clockWait 15 s2)
      \<or> poll_flash c e 0xFF a 30 (fst (TIMERVALUE e s2)) (snd (TIMERVALUE e s2)) = Some y"
    using assms unfolding ispFlushPage_def Let_def s2_def [symmetric]
    by (auto split: if_splits prod.splits)
  have "trace (snd (TIMERVALUE e s2)) = trace s2" "isp_hiaddr (snd (TIMERVALUE e s2)) = hi_byte a"
    using h2 by (simp_all add: TIMERVALUE_snd)
  then have "poll_flash c e 0xFF a 30 (fst (TIMERVALUE e s2)) (snd (TIMERVALUE e s2)) = Some y
      \<Longrightarrow> \<exists>rest. trace (snd y) = trace s2 @ rest"
    using poll_flash_trace [of c e "0xFF" a 30 "fst (TIMERVALUE e s2)" "snd (TIMERVALUE e s2)" y]
    by auto
  moreover have "y = (0, clockWait 15 s2) \<Longrightarrow> trace (snd y) = trace s2 @ [Wait 15]"
    by (simp add: clockWait_trace)
  ultimately have "\<exists>rest. trace (snd y) = trace s2 @ rest"
    using cases by blast
  then show ?thesis
    using t2 by auto
qed

text \<open>
  Claim C1, as amended. For every address \<open>a\<close> and state, \<open>ispUpdateExtended\<close> puts the four
  bytes 0x4D, 0x00, high byte, 0x00 on the wire if and only if the high byte \<open>a >> 17\<close>
  (as a \<open>uchar\<close>) differs from \<open>isp_hiaddr\<close>, and \<open>isp_hiaddr\<close> is that high byte afterwards.
  Right after \<open>ispConnect\<close> the cache holds 0xFF, so the next flash access
  (\<open>ispReadFlash\<close>, \<open>ispWriteFlash\<close> or \<open>ispFlushPage\<close>) starts with this command if and only
  if the high byte of its address differs from 0xFF; that is the case for every address
  below 0x1FE0000.
\<close>

theorem ispUpdateExtended_emits_iff_changed:
  "trace (ispUpdateExtended c e a s) =
      trace s @ (if hi_byte a \<noteq> isp_hiaddr s then load_ext (hi_byte a) else [])
   \<and> isp_hiaddr (ispUpdateExtended c e a s) = hi_byte a
   \<and> trace (snd (ispReadFlash c e a (ispConnect c s))) =
       trace (ispConnect c s) @ (if hi_byte a \<noteq> 0xFF then load_ext (hi_byte a) else [])
         @ read_cmd a
   \<and> (\<forall>r s'. ispWriteFlash c e a d pm (ispConnect c s) = Some (r, s') \<longrightarrow>
         (\<exists>rest. trace s' =
            trace (ispConnect c s) @ (if hi_byte a \<noteq> 0xFF then load_ext (hi_byte a) else [])
              @ write_cmd a d @ rest))
   \<and> (\<forall>r s'. ispFlushPage c e a pv (ispConnect c s) = Some (r, s') \<longrightarrow>
         (\<exists>rest. trace s' =
            trace (ispConnect c s) @ (if hi_byte a \<noteq> 0xFF then load_ext (hi_byte a) else [])
              @ page_cmd a @ rest))
   \<and> (a < 0x1FE0000 \<longrightarrow> hi_byte a \<noteq> 0xFF)"
proof -
  have ext: "ext_seq a (ispConnect c s) = (if hi_byte a \<noteq> 0xFF then load_ext (hi_byte a) else [])"
    by (simp add: ext_seq_def ispConnect_hiaddr)
  have "trace (ispUpdateExtended c e a s) =
      trace s @ (if hi_byte a \<noteq> isp_hiaddr s then load_ext (hi_byte a) else [])"
    by (simp add: ispUpdateExtended_trace ext_seq_def)
  moreover have "isp_hiaddr (ispUpdateExtended c e a s) = hi_byte a"
    by (rule ispUpdateExtended_hiaddr)
  moreover have "trace (snd (ispReadFlash c e a (ispConnect c s))) =
       trace (ispConnect c s) @ (if hi_byte a \<noteq> 0xFF then load_ext (hi_byte a) else [])
         @ read_cmd a"
    using ext by (simp add: ispReadFlash_trace)
  moreover have "\<forall>r s'. ispWriteFlash c e a d pm (ispConnect c s) = Some (r, s') \<longrightarrow>
         (\<exists>rest. trace s' =
            trace (ispConnect c s) @ (if hi_byte a \<noteq> 0xFF then load_ext (hi_byte a) else [])
              @ write_cmd a d @ rest)"
    using ispWriteFlash_prefix [of c e a d pm "ispConnect c s"] ext by fastforce
  moreover have "\<forall>r s'. ispFlushPage c e a pv (ispConnect c s) = Some (r, s') \<longrightarrow>
         (\<exists>rest. trace s' =
            trace (ispConnect c s) @ (if hi_byte a \<noteq> 0xFF then load_ext (hi_byte a) else [])
              @ page_cmd a @ rest)"
    using ispFlushPage_prefix [of c e a pv "ispConnect c s"] ext by fastforce
  moreover have "a < 0x1FE0000 \<longrightarrow> hi_byte a \<noteq> 0xFF"
    using hi_byte_below by blast
  ultimately show ?thesis
    by blast
qed

text \<open>
  On the concrete board, a read of address 0x20000 right after \<open>ispConnect\<close>: the high
  byte is 1 and the command is sent before the read command.
\<close>

theorem ispUpdateExtended_emits_iff_changed_witness:
  "(0x20000 :: u32) < 0x1FE0000 \<and> hi_byte 0x20000 \<noteq> 0xFF
   \<and> trace (snd (ispReadFlash usbasp_consts quiet_target 0x20000
         (ispConnect usbasp_consts power_on))) =
       [Rst True, Wait 1, Rst False, Tx 0x4D, Tx 0, Tx 1, Tx 0, Tx 0x20, Tx 0, Tx 0, Tx 0]"
proof -
  have h: "hi_byte 0x20000 = 1"
    by (simp add: hi_byte_def)
  show ?thesis
    using ispUpdateExtended_emits_iff_changed [of usbasp_consts quiet_target "0x20000" power_on 0 0 0]
    by (simp add: h load_ext_def read_cmd_def ispConnect_trace power_on_def)
qed

text \<open>
  The claim as it was stated fails at address 0x1FE0000, whose high byte is 0xFF, the
  value \<open>ispConnect\<close> leaves in the cache: the first read after \<open>ispConnect\<close> sends the read
  command only.
\<close>

theorem first_access_high_byte_FF_counterexample:
  "hi_byte 0x1FE0000 = 0xFF
   \<and> trace (snd (ispReadFlash usbasp_consts quiet_target 0x1FE0000
         (ispConnect usbasp_consts power_on))) =
       [Rst True, Wait 1, Rst False, Tx 0x20, Tx 0, Tx 0, Tx 0]"
  by (simp add: ispReadFlash_trace ext_seq_def ispConnect_hiaddr ispConnect_trace hi_byte_def
      read_cmd_def power_on_def)

section \<open>The cached high byte follows the wire\<close>

lemma bytes_append: "bytes (xs @ ys) = bytes xs @ bytes ys"
  by (induction xs rule: bytes.induct) simp_all

lemma mod4: "Suc (Suc (Suc (Suc n))) mod 4 = n mod 4"
  by presburger

lemma ext_cmds_append:
  "length bs mod 4 = 0 \<Longrightarrow> ext_cmds (bs @ cs) = ext_cmds bs @ ext_cmds cs"
proof (induction bs rule: ext_cmds.induct)
  case (1 b0 b1 b2 b3 rest)
  have r: "length rest mod 4 = 0"
  proof -
    have "length (b0 # b1 # b2 # b3 # rest) = Suc (Suc (Suc (Suc (length rest))))"
      by simp
    then show ?thesis
      using "1.prems" by (simp only: mod4)
  qed
  have "ext_cmds (rest @ cs) = ext_cmds rest @ ext_cmds cs"
    using "1.IH" r by (cases "b0 = 0x4D") simp_all
  then show ?case
    by simp
qed simp_all

lemma framed_refl: "framed s s"
  unfolding framed_def by (rule exI [of _ "[]"]) simp

lemma framed_same: "trace s' = trace s \<Longrightarrow> isp_hiaddr s' = isp_hiaddr s \<Longrightarrow> framed s s'"
  unfolding framed_def by (rule exI [of _ "[]"]) simp

lemma last_step: "last (last (x # xs) # ys) = last (x # xs @ ys)"
  by (cases ys) simp_all

lemma framed_trans:
  assumes "framed s s1" and "framed s1 s2"
  shows "framed s s2"
proof -
  from assms(1) obtain e1 where e1: "trace s1 = trace s @ e1" "length (bytes e1) mod 4 = 0"
    "isp_hiaddr s1 = last (isp_hiaddr s # ext_cmds (bytes e1))"
    unfolding framed_def by (elim exE conjE)
  from assms(2) obtain e2 where e2: "trace s2 = trace s1 @ e2" "length (bytes e2) mod 4 = 0"
    "isp_hiaddr s2 = last (isp_hiaddr s1 # ext_cmds (bytes e2))"
    unfolding framed_def by (elim exE conjE)
  have t: "trace s2 = trace s @ (e1 @ e2)"
    by (simp only: e1(1) e2(1) append_assoc)
  have "length (bytes (e1 @ e2)) = length (bytes e1) + length (bytes e2)"
    by (simp only: bytes_append length_append)
  then have l: "length (bytes (e1 @ e2)) mod 4 = 0"
    using e1(2) e2(2) by presburger
  have "ext_cmds (bytes (e1 @ e2)) = ext_cmds (bytes e1) @ ext_cmds (bytes e2)"
    using e1(2) by (simp only: bytes_append ext_cmds_append)
  then have h: "isp_hiaddr s2 = last (isp_hiaddr s # ext_cmds (bytes (e1 @ e2)))"
    by (simp only: e2(3) e1(3) last_step)
  show ?thesis
    unfolding framed_def by (intro exI [of _ "e1 @ e2"] conjI t l h)
qed

lemma framed_cmds:
  assumes "bytes cmd = [b0, b1, b2, b3]" and "b0 \<noteq> 0x4D"
    and "trace s' = trace s @ concat (replicate n cmd)" and "isp_hiaddr s' = isp_hiaddr s"
  shows "framed s s'"
proof -
  have "length (bytes (concat (replicate n cmd))) mod 4 = 0
      \<and> ext_cmds (bytes (concat (replicate n cmd))) = []"
  proof (induction n)
    case 0
    then show ?case by simp
  next
    case (Suc n)
    have "bytes (concat (replicate (Suc n) cmd))
        = b0 # b1 # b2 # b3 # bytes (concat (replicate n cmd))"
      using assms(1) by (simp add: bytes_append)
    then show ?case
      using Suc assms(2) by (simp add: mod4)
  qed
  then show ?thesis
    unfolding framed_def using assms(3,4)
    by (intro exI [of _ "concat (replicate n cmd)"]) simp
qed

lemma opcode_cases:
  fixes a :: u32
  shows "(ucast (0x20 OR push_bit 3 (a AND 1)) :: u8) \<in> {0x20, 0x28}"
    and "(ucast (0x40 OR push_bit 3 (a AND 1)) :: u8) \<in> {0x40, 0x48}"
proof -
  have z: "(ucast (0x20 OR push_bit 3 (0 :: u32)) :: u8) = 0x20"
    "(ucast (0x40 OR push_bit 3 (0 :: u32)) :: u8) = 0x40"
    by simp_all
  have o: "(ucast (0x20 OR push_bit 3 (1 :: u32)) :: u8) = 0x28"
    "(ucast (0x40 OR push_bit 3 (1 :: u32)) :: u8) = 0x48"
    by simp_all
  have "a AND 1 = 0 \<or> a AND 1 = 1"
    by (simp add: and_one_eq mod_2_eq_odd)
  then show "(ucast (0x20 OR push_bit 3 (a AND 1)) :: u8) \<in> {0x20, 0x28}"
    and "(ucast (0x40 OR push_bit 3 (a AND 1)) :: u8) \<in> {0x40, 0x48}"
    by (auto simp only: z o insert_iff)
qed

lemma framed_after_update:
  assumes "b0 \<noteq> 0x4D"
  shows "framed s (snd (transmit4 c e b0 b1 b2 b3 (ispUpdateExtended c e a s)))"
proof -
  let ?s' = "snd (transmit4 c e b0 b1 b2 b3 (ispUpdateExtended c e a s))"
  have t: "trace ?s' = trace s @ (ext_seq a s @ [Tx b0, Tx b1, Tx b2, Tx b3])"
    by (simp add: transmit4_trace ispUpdateExtended_trace)
  have h: "isp_hiaddr ?s' = hi_byte a"
    by (simp add: transmit4_frame ispUpdateExtended_hiaddr)
  have "length (bytes (ext_seq a s @ [Tx b0, Tx b1, Tx b2, Tx b3])) mod 4 = 0
      \<and> hi_byte a = last (isp_hiaddr s # ext_cmds (bytes (ext_seq a s @ [Tx b0, Tx b1, Tx b2, Tx b3])))"
    using assms by (simp add: ext_seq_def load_ext_def)
  then show ?thesis
    unfolding framed_def using t h by (intro exI [of _ "ext_seq a s @ [Tx b0, Tx b1, Tx b2, Tx b3]"]) simp
qed

lemma framed_ispReadFlash: "framed s (snd (ispReadFlash c e a s))"
proof -
  have "(ucast (0x20 OR push_bit 3 (a AND 1)) :: u8) \<noteq> 0x4D"
    using opcode_cases(1) [of a] by auto
  then show ?thesis
    unfolding ispReadFlash_snd by (rule framed_after_update)
qed

lemma framed_poll_flash:
  assumes "poll_flash c e busy a retries starttime s = Some y" and "isp_hiaddr s = hi_byte a"
  shows "framed s (snd y)"
proof -
  from poll_flash_trace [OF assms(1)] assms(2) obtain n where
    n: "trace (snd y) = trace s @ concat (replicate n (read_cmd a))"
    and h: "isp_hiaddr (snd y) = isp_hiaddr s" by auto
  have ne: "(ucast (0x20 OR push_bit 3 (a AND 1)) :: u8) \<noteq> 0x4D"
    using opcode_cases(1) [of a] by auto
  have b: "bytes (read_cmd a) = [ucast (0x20 OR push_bit 3 (a AND 1)), ucast (drop_bit 9 a),
      ucast (drop_bit 1 a), 0]"
    unfolding read_cmd_def by (simp only: bytes.simps)
  show ?thesis
    by (rule framed_cmds [OF b ne n h])
qed

lemma framed_nobytes:
  assumes "bytes evs = []" and "trace s' = trace s @ evs" and "isp_hiaddr s' = isp_hiaddr s"
  shows "framed s s'"
  unfolding framed_def using assms by (intro exI [of _ evs]) simp

lemma ispSetSCKOption_frame:
  "trace (ispSetSCKOption c option s) = trace s"
  "isp_hiaddr (ispSetSCKOption c option s) = isp_hiaddr s"
  "prog_sck (ispSetSCKOption c option s) = prog_sck s"
  "treads (ispSetSCKOption c option s) = treads s"
  "ISP_DDR (ispSetSCKOption c option s) = ISP_DDR s"
  "ISP_OUT (ispSetSCKOption c option s) = ISP_OUT s"
  by (cases "option = USBASP_ISP_SCK_AUTO c"; simp add: ispSetSCKOption_def Let_def)+

lemma ispSetSCKOption_xfers: "xfers (ispSetSCKOption c option s) = xfers s"
  by (simp add: xfers_def ispSetSCKOption_frame)

lemma spiHW_frame:
  "trace (spiHWenable c s) = trace s" "isp_hiaddr (spiHWenable c s) = isp_hiaddr s"
  "prog_sck (spiHWenable c s) = prog_sck s" "ispTransmit (spiHWenable c s) = ispTransmit s"
  "xfers (spiHWenable c s) = xfers s"
  "trace (spiHWdisable s) = trace s" "isp_hiaddr (spiHWdisable s) = isp_hiaddr s"
  "prog_sck (spiHWdisable s) = prog_sck s" "ispTransmit (spiHWdisable s) = ispTransmit s"
  "xfers (spiHWdisable s) = xfers s"
  by (simp_all add: spiHWenable_def spiHWdisable_def xfers_def)

lemma attempt_snd:
  "snd (attempt c e f s) = snd (call4 c e f 0xAC 0x53 0 0
     (clockWait 62 (emit [Rst False] ((clockWait 1 (emit [Rst True]
        (s\<lparr>ISP_OUT := ISP_OUT s OR bit8 (ISP_RST c)\<rparr>)))
          \<lparr>ISP_OUT := (ISP_OUT s OR bit8 (ISP_RST c)) AND NOT (bit8 (ISP_RST c))\<rparr>))))"
  by (simp add: attempt_def Let_def clockWait_def emit_def split: prod.splits)

lemma attempt_trace: "trace (snd (attempt c e f s)) = trace s @ handshake"
  by (simp add: attempt_snd call4_trace clockWait_def emit_def handshake_def enable_cmd_def)

lemma attempt_frame:
  "isp_hiaddr (snd (attempt c e f s)) = isp_hiaddr s"
  "ispTransmit (snd (attempt c e f s)) = ispTransmit s"
  "prog_sck (snd (attempt c e f s)) = prog_sck s"
  "treads (snd (attempt c e f s)) = treads s"
  "sck_sw_delay (snd (attempt c e f s)) = sck_sw_delay s"
  "SPCR (snd (attempt c e f s)) = SPCR s"
  "SPSR (snd (attempt c e f s)) = SPSR s"
  by (simp_all add: attempt_snd call4_frame clockWait_def emit_def)

lemma attempt_xfers: "xfers (snd (attempt c e f s)) = xfers s + 4"
  by (simp add: xfers_def attempt_trace handshake_def enable_cmd_def)

lemma attempt_fst: "fst (attempt c e f s) = miso e (xfers s + 2)"
proof -
  let ?s4 = "clockWait 62 (emit [Rst False] ((clockWait 1 (emit [Rst True]
        (s\<lparr>ISP_OUT := ISP_OUT s OR bit8 (ISP_RST c)\<rparr>)))
          \<lparr>ISP_OUT := (ISP_OUT s OR bit8 (ISP_RST c)) AND NOT (bit8 (ISP_RST c))\<rparr>))"
  have "fst (attempt c e f s) = fst (snd (snd (fst (call4 c e f 0xAC 0x53 0 0 ?s4))))"
    by (simp add: attempt_def Let_def clockWait_def emit_def split: prod.splits)
  moreover have "xfers ?s4 = xfers s"
    by (simp add: xfers_def clockWait_def emit_def)
  ultimately show ?thesis
    by (simp add: call4_fst)
qed

lemma bump_speed_frame:
  "trace (bump_speed c s) = trace s"
  "isp_hiaddr (bump_speed c s) = isp_hiaddr s"
  "prog_sck (bump_speed c s) = prog_sck s"
  by (simp_all add: bump_speed_def Let_def ispSetSCKOption_frame spiHW_frame)

lemma framed_attempt: "framed s (snd (attempt c e f s))"
proof -
  have "trace (snd (attempt c e f s)) = trace s @ concat (replicate 1 handshake)"
    by (simp add: attempt_trace)
  moreover have "bytes handshake = [0xAC, 0x53, 0, 0]"
    by (simp add: handshake_def enable_cmd_def)
  ultimately show ?thesis
    using framed_cmds [of handshake "0xAC" "0x53" 0 0 "snd (attempt c e f s)" s 1]
    by (simp add: attempt_frame)
qed

lemma framed_do_tries:
  "(\<forall>s'. do_tries c e f tries s = Inl s' \<longrightarrow> framed s s')
     \<and> (\<forall>s'. do_tries c e f tries s = Inr s' \<longrightarrow> framed s s')"
proof (induction c e f tries s rule: do_tries.induct)
  case (1 c e spiTx tries s)
  obtain check s1 where a: "attempt c e spiTx s = (check, s1)" by force
  have f1: "framed s s1"
    using framed_attempt [of s c e spiTx] a by simp
  show ?case
  proof (cases "check = 0x53")
    case True
    then have "do_tries c e spiTx tries s = Inl (bump_speed c s1)"
      by (simp add: do_tries.simps [of c e spiTx tries s] a)
    moreover have "framed s1 (bump_speed c s1)"
      by (rule framed_same) (simp_all add: bump_speed_frame)
    ultimately show ?thesis
      using framed_trans [OF f1] by simp
  next
    case False
    show ?thesis
    proof (cases "tries - 1 \<noteq> 0")
      case True
      then have d: "do_tries c e spiTx tries s = do_tries c e spiTx (tries - 1) s1"
        using False by (simp add: do_tries.simps [of c e spiTx tries s] a)
      have "(\<forall>s'. do_tries c e spiTx (tries - 1) s1 = Inl s' \<longrightarrow> framed s1 s')
         \<and> (\<forall>s'. do_tries c e spiTx (tries - 1) s1 = Inr s' \<longrightarrow> framed s1 s')"
        using "1.IH" [OF a [symmetric] False True] by simp
      then show ?thesis
        unfolding d using framed_trans [OF f1] by blast
    next
      case t: False
      have "do_tries c e spiTx tries s = Inr s1"
        by (subst do_tries.simps) (use False t in \<open>simp add: a\<close>)
      then show ?thesis
        using f1 by simp
    qed
  qed
qed

lemma framed_tier_loop:
  assumes "tier_loop c e s = Some y"
  shows "framed s (snd y)"
proof (rule tier_loop.raw_induct [where P = "\<lambda>c e s y. framed s (snd y)", OF _ assms])
  fix loop c e s and y :: "u8 \<times> isp"
  assume IH: "\<And>c e s y. loop c e s = Some y \<Longrightarrow> framed s (snd y)"
    and body: "(if USBASP_ISP_SCK_0_5 c \<le> prog_sck s
      then let spiTx = ispTransmit s;
               s1 = if ispTransmit s = Fn_hw then spiHWenable c s else s
           in case do_tries c e spiTx 3 s1 of Inl s2 \<Rightarrow> Some (0, s2)
              | Inr s2 \<Rightarrow>
                  let s3 = spiHWdisable s2;
                      s4 = s3\<lparr>prog_sck := prog_sck s3 - 1\<rparr>
                  in loop c e (ispSetSCKOption c (prog_sck s4) s4)
      else Some (1, s)) = Some y"
  show "framed s (snd y)"
  proof (cases "USBASP_ISP_SCK_0_5 c \<le> prog_sck s")
    case False
    with body have "y = (1, s)" by simp
    then show ?thesis by (simp add: framed_refl)
  next
    case True
    define s1 where "s1 = (if ispTransmit s = Fn_hw then spiHWenable c s else s)"
    have f1: "framed s s1"
      unfolding s1_def by (rule framed_same) (simp_all add: spiHW_frame)
    show ?thesis
    proof (cases "do_tries c e (ispTransmit s) 3 s1")
      case (Inl s2)
      then have "y = (0, s2)"
        using body True by (simp add: Let_def s1_def)
      moreover have "framed s1 s2"
        using framed_do_tries [of c e "ispTransmit s" 3 s1] Inl by simp
      ultimately show ?thesis
        using framed_trans [OF f1] by simp
    next
      case (Inr s2)
      define s5 where "s5 = ispSetSCKOption c (prog_sck s2 - 1) (spiHWdisable s2\<lparr>prog_sck := prog_sck s2 - 1\<rparr>)"
      have "loop c e s5 = Some y"
        using body True Inr by (simp add: Let_def s1_def s5_def spiHW_frame)
      then have f5: "framed s5 (snd y)"
        by (rule IH)
      have f2: "framed s1 s2"
        using framed_do_tries [of c e "ispTransmit s" 3 s1] Inr by simp
      have "framed s2 s5"
        unfolding s5_def
        by (rule framed_same) (simp_all add: ispSetSCKOption_frame spiHWdisable_def)
      then show ?thesis
        using framed_trans f1 f2 f5 by blast
    qed
  qed
qed

lemma framed_ispEnterProgrammingMode:
  assumes "ispEnterProgrammingMode c e s = Some y"
  shows "framed s (snd y)"
proof -
  let ?s0 = "if prog_sck s = 0 then s\<lparr>prog_sck := USBASP_ISP_SCK_1500 c\<rparr> else s"
  have "framed s ?s0"
    by (rule framed_same) simp_all
  moreover have "framed ?s0 (snd y)"
    using assms unfolding ispEnterProgrammingMode_def by (rule framed_tier_loop)
  ultimately show ?thesis
    by (rule framed_trans)
qed

lemma framed_TIMERVALUE: "framed s (snd (TIMERVALUE e s))"
  by (rule framed_same) (simp_all add: TIMERVALUE_snd)

lemma framed_clockWait: "framed s (clockWait n s)"
  by (rule framed_nobytes [of "[Wait n]"]) (simp_all add: clockWait_trace clockWait_frame)

lemma framed_ispWriteFlash:
  assumes "ispWriteFlash c e a d pm s = Some y"
  shows "framed s (snd y)"
proof -
  define s2 where "s2 = snd (transmit4 c e (ucast (0x40 OR push_bit 3 (a AND 1)))
      (ucast (drop_bit 9 a)) (ucast (drop_bit 1 a)) d (ispUpdateExtended c e a s))"
  have "(ucast (0x40 OR push_bit 3 (a AND 1)) :: u8) \<noteq> 0x4D"
    using opcode_cases(2) [of a] by auto
  then have f2: "framed s s2"
    unfolding s2_def by (rule framed_after_update)
  have h2: "isp_hiaddr s2 = hi_byte a"
    unfolding s2_def by (simp add: transmit4_frame ispUpdateExtended_hiaddr)
  have cases: "y = (0, s2) \<or> y = (0, clockWait 15 s2)
      \<or> poll_flash c e 0x7F a 30 (fst (TIMERVALUE e s2)) (snd (TIMERVALUE e s2)) = Some y"
    using assms unfolding ispWriteFlash_def Let_def s2_def [symmetric]
    by (auto split: if_splits prod.splits)
  have "isp_hiaddr (snd (TIMERVALUE e s2)) = hi_byte a"
    using h2 by (simp add: TIMERVALUE_snd)
  then have "poll_flash c e 0x7F a 30 (fst (TIMERVALUE e s2)) (snd (TIMERVALUE e s2)) = Some y
      \<Longrightarrow> framed s2 (snd y)"
    using framed_poll_flash framed_TIMERVALUE framed_trans by blast
  then have "framed s2 (snd y)"
    using cases framed_refl framed_clockWait by auto
  then show ?thesis
    using f2 framed_trans by blast
qed

lemma framed_ispFlushPage:
  assumes "ispFlushPage c e a pv s = Some y"
  shows "framed s (snd y)"
proof -
  define s2 where "s2 = snd (transmit4 c e 0x4C
      (ucast (drop_bit 9 a)) (ucast (drop_bit 1 a)) 0 (ispUpdateExtended c e a s))"
  have f2: "framed s s2"
    unfolding s2_def by (rule framed_after_update) simp
  have h2: "isp_hiaddr s2 = hi_byte a"
    unfolding s2_def by (simp add: transmit4_frame ispUpdateExtended_hiaddr)
  have cases: "y = (0, clockWait 15 s2)
      \<or> poll_flash c e 0xFF a 30 (fst (TIMERVALUE e s2)) (snd (TIMERVALUE e s2)) = Some y"
    using assms unfolding ispFlushPage_def Let_def s2_def [symmetric]
    by (auto split: if_splits prod.splits)
  have "isp_hiaddr (snd (TIMERVALUE e s2)) = hi_byte a"
    using h2 by (simp add: TIMERVALUE_snd)
  then have "poll_flash c e 0xFF a 30 (fst (TIMERVALUE e s2)) (snd (TIMERVALUE e s2)) = Some y
      \<Longrightarrow> framed s2 (snd y)"
    using framed_poll_flash framed_TIMERVALUE framed_trans by blast
  then have "framed s2 (snd y)"
    using cases framed_clockWait by auto
  then show ?thesis
    using f2 framed_trans by blast
qed

lemma framed_ispReadEEPROM: "framed s (snd (ispReadEEPROM c e a s))"
proof -
  have b: "bytes [Tx 0xA0, Tx (ucast (drop_bit 8 a)), Tx (ucast a), Tx 0]
      = [0xA0, ucast (drop_bit 8 a), ucast a, 0]"
    by simp
  have t: "trace (snd (ispReadEEPROM c e a s)) = trace s @
      concat (replicate 1 [Tx 0xA0, Tx (ucast (drop_bit 8 a)), Tx (ucast a), Tx 0])"
    by (simp add: ispReadEEPROM_result)
  show ?thesis
    by (rule framed_cmds [OF b _ t]) (simp_all add: ispReadEEPROM_result)
qed

lemma framed_ispWriteEEPROM: "framed s (snd (ispWriteEEPROM c e a d s))"
proof -
  have b: "bytes [Tx 0xC0, Tx (ucast (drop_bit 8 a)), Tx (ucast a), Tx d, Wait 30]
      = [0xC0, ucast (drop_bit 8 a), ucast a, d]"
    by simp
  have t: "trace (snd (ispWriteEEPROM c e a d s)) = trace s @
      concat (replicate 1 [Tx 0xC0, Tx (ucast (drop_bit 8 a)), Tx (ucast a), Tx d, Wait 30])"
    by (simp add: ispWriteEEPROM_result)
  show ?thesis
    by (rule framed_cmds [OF b _ t]) (simp_all add: ispWriteEEPROM_result)
qed

lemma framed_exec:
  assumes "exec c e x s = Some s'" and "x \<noteq> Connect"
  shows "framed s s'"
proof (cases x)
  case (SetSCKOption option)
  then show ?thesis
    using assms by (auto intro!: framed_same simp add: ispSetSCKOption_frame)
next
  case Connect
  then show ?thesis using assms by simp
next
  case Disconnect
  then show ?thesis
    using assms by (auto intro!: framed_same simp add: ispDisconnect_def spiHWdisable_def Let_def)
next
  case EnterProgrammingMode
  then show ?thesis
    using assms framed_ispEnterProgrammingMode by auto
next
  case (ReadFlash a)
  then show ?thesis
    using assms framed_ispReadFlash by auto
next
  case (WriteFlash a d pm)
  then show ?thesis
    using assms framed_ispWriteFlash by auto
next
  case (FlushPage a pv)
  then show ?thesis
    using assms framed_ispFlushPage by auto
next
  case (ReadEEPROM a)
  then show ?thesis
    using assms framed_ispReadEEPROM by auto
next
  case (WriteEEPROM a d)
  then show ?thesis
    using assms framed_ispWriteEEPROM by auto
qed

lemma framed_run:
  "run c e ops s = Some s' \<Longrightarrow> Connect \<notin> set ops \<Longrightarrow> framed s s'"
proof (induction ops arbitrary: s)
  case Nil
  then show ?case by (simp add: framed_refl)
next
  case (Cons x xs)
  from Cons.prems(1) obtain s1 where x: "exec c e x s = Some s1" and r: "run c e xs s1 = Some s'"
    by (auto split: option.splits)
  have "framed s s1"
    using framed_exec [OF x] Cons.prems(2) by auto
  moreover have "framed s1 s'"
    using Cons.IH [OF r] Cons.prems(2) by simp
  ultimately show ?case
    by (rule framed_trans)
qed

lemma run_append:
  "run c e (xs @ ys) s = (case run c e xs s of None \<Rightarrow> None | Some s1 \<Rightarrow> run c e ys s1)"
  by (induction xs arbitrary: s) (simp_all split: option.splits)


text \<open>
  Claim C6. Take any sequence of operations that contains \<open>ispConnect\<close> and that returns,
  started in any state, and let \<open>s1\<close> be the state right after its last \<open>ispConnect\<close>.
  In the state \<open>s'\<close> at the end, \<open>isp_hiaddr\<close> is the high byte carried by the last
  load-extended-address command among the bytes put on the wire since \<open>s1\<close>, and it is
  0xFF when there is no such command. The operations are the public functions of
  \<open>isp.c\<close>; every one of them keeps this relation (\<open>framed\<close>), and \<open>ispConnect\<close>
  establishes it.
\<close>

theorem isp_hiaddr_tracks_wire:
  assumes "run c e (pre @ Connect # post) s0 = Some s'" and "Connect \<notin> set post"
  shows "\<exists>s1. run c e (pre @ [Connect]) s0 = Some s1 \<and> run c e post s1 = Some s'
           \<and> isp_hiaddr s' =
               last (0xFF # ext_cmds (bytes (drop (length (trace s1)) (trace s'))))"
proof -
  from assms(1) obtain sp where sp: "run c e pre s0 = Some sp"
    and r: "run c e (Connect # post) sp = Some s'"
    by (auto simp add: run_append split: option.splits)
  define s1 where "s1 = ispConnect c sp"
  have r1: "run c e (pre @ [Connect]) s0 = Some s1"
    by (simp add: run_append sp s1_def)
  have r2: "run c e post s1 = Some s'"
    using r by (simp add: s1_def)
  from framed_run [OF r2 assms(2)] obtain evs where
    evs: "trace s' = trace s1 @ evs" "isp_hiaddr s' = last (isp_hiaddr s1 # ext_cmds (bytes evs))"
    unfolding framed_def by blast
  have "isp_hiaddr s1 = 0xFF"
    by (simp add: s1_def ispConnect_hiaddr)
  then have "isp_hiaddr s' = last (0xFF # ext_cmds (bytes (drop (length (trace s1)) (trace s'))))"
    using evs by simp
  then show ?thesis
    using r1 r2 by blast
qed

text \<open>
  On the concrete board: after \<open>ispConnect\<close>, a flash read at 0x20000 sends the command
  with high byte 1, an EEPROM read follows, and the cache holds 1.
\<close>

theorem isp_hiaddr_tracks_wire_witness:
  "\<exists>s1 s'. run usbasp_consts quiet_target [SetSCKOption 0, Connect] power_on = Some s1
     \<and> run usbasp_consts quiet_target [ReadFlash 0x20000, ReadEEPROM 5] s1 = Some s'
     \<and> isp_hiaddr s' = last (0xFF # ext_cmds (bytes (drop (length (trace s1)) (trace s'))))
     \<and> isp_hiaddr s' = 1"
proof -
  have "\<exists>s'. run usbasp_consts quiet_target
      ([SetSCKOption 0] @ Connect # [ReadFlash 0x20000, ReadEEPROM 5]) power_on = Some s'"
    by simp
  then obtain s' where r: "run usbasp_consts quiet_target
      ([SetSCKOption 0] @ Connect # [ReadFlash 0x20000, ReadEEPROM 5]) power_on = Some s'"
    by blast
  have c: "Connect \<notin> set [ReadFlash 0x20000, ReadEEPROM 5]"
    by simp
  from isp_hiaddr_tracks_wire [OF r c] obtain s1 where
    s1: "run usbasp_consts quiet_target ([SetSCKOption 0] @ [Connect]) power_on = Some s1"
      "run usbasp_consts quiet_target [ReadFlash 0x20000, ReadEEPROM 5] s1 = Some s'"
      "isp_hiaddr s' = last (0xFF # ext_cmds (bytes (drop (length (trace s1)) (trace s'))))"
    by blast
  have "isp_hiaddr s' = 1"
    using s1(2) by (auto simp add: ispReadEEPROM_result ispReadFlash_frame hi_byte_def)
  then show ?thesis
    using s1 by auto
qed

section \<open>EEPROM access and the cached high byte\<close>

lemma eeprom_run:
  "list_all is_eeprom ops \<Longrightarrow>
     \<exists>s' evs. run c e ops s = Some s' \<and> trace s' = trace s @ evs
        \<and> length (bytes evs) mod 4 = 0 \<and> ext_cmds (bytes evs) = []
        \<and> isp_hiaddr s' = isp_hiaddr s"
proof (induction ops arbitrary: s)
  case Nil
  show ?case by simp
next
  case (Cons x xs)
  from Cons.prems have x: "is_eeprom x" and xs: "list_all is_eeprom xs"
    by simp_all
  from x obtain s1 ev1 where 1: "exec c e x s = Some s1" "trace s1 = trace s @ ev1"
    "length (bytes ev1) mod 4 = 0" "ext_cmds (bytes ev1) = []" "isp_hiaddr s1 = isp_hiaddr s"
    by (cases x) (simp_all add: ispReadEEPROM_result ispWriteEEPROM_result)
  from Cons.IH [OF xs, of s1] obtain s' ev2 where 2: "run c e xs s1 = Some s'"
    "trace s' = trace s1 @ ev2" "length (bytes ev2) mod 4 = 0" "ext_cmds (bytes ev2) = []"
    "isp_hiaddr s' = isp_hiaddr s1"
    by (elim exE conjE)
  have "length (bytes (ev1 @ ev2)) = length (bytes ev1) + length (bytes ev2)"
    by (simp add: bytes_append)
  then have l: "length (bytes (ev1 @ ev2)) mod 4 = 0"
    using 1(3) 2(3) by presburger
  have x0: "ext_cmds (bytes (ev1 @ ev2)) = []"
    using 1(3,4) 2(4) by (simp add: bytes_append ext_cmds_append)
  have rr: "run c e (x # xs) s = Some s'" "trace s' = trace s @ (ev1 @ ev2)"
    "isp_hiaddr s' = isp_hiaddr s"
    using 1 2 by simp_all
  show ?case
    by (rule exI [of _ s'], rule exI [of _ "ev1 @ ev2"]) (intro conjI rr l x0)
qed

text \<open>
  Claim C10. For every 16-bit address and data byte, \<open>ispReadEEPROM\<close> and \<open>ispWriteEEPROM\<close>
  leave \<open>isp_hiaddr\<close> as it was, and what they put on the wire is their own 4-byte
  command (opcode 0xA0 or 0xC0), never a load-extended-address command. Any number of
  EEPROM operations in a row returns, carries no load-extended-address command, and
  leaves \<open>isp_hiaddr\<close> as it was; so the flash access that follows sends the
  load-extended-address command exactly when it would have been sent without them.
\<close>

theorem eeprom_bypasses_addressing:
  "isp_hiaddr (snd (ispReadEEPROM c e a s)) = isp_hiaddr s
   \<and> isp_hiaddr (snd (ispWriteEEPROM c e a d s)) = isp_hiaddr s
   \<and> trace (snd (ispReadEEPROM c e a s)) =
       trace s @ [Tx 0xA0, Tx (ucast (drop_bit 8 a)), Tx (ucast a), Tx 0]
   \<and> trace (snd (ispWriteEEPROM c e a d s)) =
       trace s @ [Tx 0xC0, Tx (ucast (drop_bit 8 a)), Tx (ucast a), Tx d, Wait 30]
   \<and> (list_all is_eeprom ops \<longrightarrow>
        (\<exists>s' evs. run c e ops s = Some s' \<and> trace s' = trace s @ evs
           \<and> ext_cmds (bytes evs) = [] \<and> isp_hiaddr s' = isp_hiaddr s
           \<and> ext_seq fa s' = ext_seq fa s
           \<and> trace (ispUpdateExtended c e fa s') = trace s' @ ext_seq fa s))"
proof -
  have "list_all is_eeprom ops \<longrightarrow>
        (\<exists>s' evs. run c e ops s = Some s' \<and> trace s' = trace s @ evs
           \<and> ext_cmds (bytes evs) = [] \<and> isp_hiaddr s' = isp_hiaddr s
           \<and> ext_seq fa s' = ext_seq fa s
           \<and> trace (ispUpdateExtended c e fa s') = trace s' @ ext_seq fa s)"
  proof
    assume "list_all is_eeprom ops"
    from eeprom_run [OF this, of c e s] obtain s' evs where
      r: "run c e ops s = Some s'" "trace s' = trace s @ evs" "ext_cmds (bytes evs) = []"
        "isp_hiaddr s' = isp_hiaddr s"
      by (elim exE conjE)
    have x: "ext_seq fa s' = ext_seq fa s"
      using r(4) by (simp add: ext_seq_def)
    then have "trace (ispUpdateExtended c e fa s') = trace s' @ ext_seq fa s"
      by (simp add: ispUpdateExtended_trace)
    then show "\<exists>s' evs. run c e ops s = Some s' \<and> trace s' = trace s @ evs
           \<and> ext_cmds (bytes evs) = [] \<and> isp_hiaddr s' = isp_hiaddr s
           \<and> ext_seq fa s' = ext_seq fa s
           \<and> trace (ispUpdateExtended c e fa s') = trace s' @ ext_seq fa s"
      using r x by (intro exI [of _ s'] exI [of _ evs]) simp
  qed
  then show ?thesis
    by (simp add: ispReadEEPROM_result ispWriteEEPROM_result)
qed

text \<open>
  On the concrete board, right after \<open>ispConnect\<close>: two EEPROM operations, then the
  addressing step of a flash access at address 0, which still sends the command.
\<close>

theorem eeprom_bypasses_addressing_witness:
  "list_all is_eeprom [WriteEEPROM 0x10 0xAB, ReadEEPROM 0x10]
   \<and> (\<exists>s'. run usbasp_consts quiet_target [WriteEEPROM 0x10 0xAB, ReadEEPROM 0x10]
           (ispConnect usbasp_consts power_on) = Some s'
        \<and> isp_hiaddr s' = 0xFF
        \<and> trace (ispUpdateExtended usbasp_consts quiet_target 0 s') = trace s' @ load_ext 0)"
  using eeprom_bypasses_addressing [of usbasp_consts quiet_target 0 "ispConnect usbasp_consts power_on"
      0 "[WriteEEPROM 0x10 0xAB, ReadEEPROM 0x10]" 0]
  by (auto simp add: ispConnect_hiaddr ext_seq_def hi_byte_def)

section \<open>The speed controller\<close>

lemma ispSetSCKOption_transport_delay:
  "ispTransmit (ispSetSCKOption c option s) =
     (if USBASP_ISP_SCK_93_75 c \<le> (if option = USBASP_ISP_SCK_AUTO c then USBASP_ISP_SCK_1500 c else option)
      then Fn_hw else Fn_sw)"
  "sck_sw_delay (ispSetSCKOption c option s) =
     (if USBASP_ISP_SCK_93_75 c \<le> (if option = USBASP_ISP_SCK_AUTO c then USBASP_ISP_SCK_1500 c else option)
      then 1
      else of_int (3 * 2 ^ nat (uint (USBASP_ISP_SCK_32 c)
             - uint (if option = USBASP_ISP_SCK_AUTO c then USBASP_ISP_SCK_1500 c else option))))"
  by (cases "option = USBASP_ISP_SCK_AUTO c"; simp add: ispSetSCKOption_def Let_def)+

lemma sw_delay_value:
  fixes hi option :: u8
  assumes "option \<le> hi" and "unat hi \<le> unat option + 6"
  shows "unat (of_int (3 * 2 ^ nat (uint hi - uint option)) :: u8) = 3 * 2 ^ (unat hi - unat option)"
proof -
  define k where "k = unat hi - unat option"
  have le: "unat option \<le> unat hi"
    using assms(1) by (simp add: word_le_nat_alt)
  have "uint hi = int (unat hi)" "uint option = int (unat option)"
    by simp_all
  then have k: "nat (uint hi - uint option) = k"
    unfolding k_def by (simp only: nat_minus_as_int [symmetric] nat_int)
  have "k \<le> 6"
    unfolding k_def using assms(2) by simp
  then have "(2::int) ^ k \<le> 2 ^ 6"
    by (intro power_increasing) simp_all
  then have small: "3 * (2::int) ^ k < 256"
    by simp
  have nonneg: "0 \<le> 3 * (2::int) ^ k"
    by simp
  have "uint (of_int (3 * 2 ^ k) :: u8) = (3 * 2 ^ k) mod 2 ^ 8"
    by (simp only: uint_word_of_int) simp
  also have "\<dots> = 3 * 2 ^ k"
    using small nonneg by (simp only: mod_pos_pos_trivial power_numeral) simp
  finally have "uint (of_int (3 * 2 ^ k) :: u8) = 3 * 2 ^ k" .
  then have "unat (of_int (3 * 2 ^ k) :: u8) = nat (3 * 2 ^ k)"
    by (simp only: unat_eq_nat_uint)
  also have "\<dots> = 3 * 2 ^ k"
    by (simp add: nat_mult_distrib nat_power_eq)
  finally show ?thesis
    by (simp only: k k_def [symmetric])
qed

lemma sw_tier_facts:
  assumes "tier_layout c" and "USBASP_ISP_SCK_0_5 c \<le> option" and "option < USBASP_ISP_SCK_93_75 c"
  shows "option \<noteq> USBASP_ISP_SCK_AUTO c" and "option \<le> USBASP_ISP_SCK_32 c"
    and "unat (USBASP_ISP_SCK_32 c) \<le> unat option + 6"
    and "\<not> USBASP_ISP_SCK_93_75 c \<le> option"
proof -
  have l: "unat (USBASP_ISP_SCK_AUTO c) < unat (USBASP_ISP_SCK_0_5 c)"
    "unat (USBASP_ISP_SCK_32 c) \<le> unat (USBASP_ISP_SCK_0_5 c) + 6"
    "unat (USBASP_ISP_SCK_93_75 c) = unat (USBASP_ISP_SCK_32 c) + 1"
    using assms(1) by (simp_all add: tier_layout_def word_less_nat_alt)
  have o: "unat (USBASP_ISP_SCK_0_5 c) \<le> unat option" "unat option < unat (USBASP_ISP_SCK_93_75 c)"
    using assms(2,3) by (simp_all add: word_le_nat_alt word_less_nat_alt)
  show "option \<noteq> USBASP_ISP_SCK_AUTO c"
    using l(1) o(1) by auto
  show "option \<le> USBASP_ISP_SCK_32 c"
    using l(3) o(2) by (simp add: word_le_nat_alt)
  show "unat (USBASP_ISP_SCK_32 c) \<le> unat option + 6"
    using l(2) o(1) by simp
  show "\<not> USBASP_ISP_SCK_93_75 c \<le> option"
    using assms(3) by simp
qed

lemma sw_tier_config:
  assumes "tier_layout c" and "USBASP_ISP_SCK_0_5 c \<le> option" and "option < USBASP_ISP_SCK_93_75 c"
  shows "ispTransmit (ispSetSCKOption c option s) = Fn_sw"
    and "unat (sck_sw_delay (ispSetSCKOption c option s)) =
           3 * 2 ^ (unat (USBASP_ISP_SCK_32 c) - unat option)"
proof -
  note f = sw_tier_facts [OF assms]
  show "ispTransmit (ispSetSCKOption c option s) = Fn_sw"
    using f(1,4) by (simp add: ispSetSCKOption_transport_delay)
  have "sck_sw_delay (ispSetSCKOption c option s) =
      of_int (3 * 2 ^ nat (uint (USBASP_ISP_SCK_32 c) - uint option))"
    using f(1,4) by (simp add: ispSetSCKOption_transport_delay)
  then show "unat (sck_sw_delay (ispSetSCKOption c option s)) =
           3 * 2 ^ (unat (USBASP_ISP_SCK_32 c) - unat option)"
    using sw_delay_value [OF f(2,3)] by simp
qed

lemma hw_tier_config:
  assumes "tier_layout c" and "USBASP_ISP_SCK_93_75 c \<le> option"
  shows "ispTransmit (ispSetSCKOption c option s) = Fn_hw"
proof -
  have "USBASP_ISP_SCK_93_75 c \<le> USBASP_ISP_SCK_1500 c"
    using assms(1) by (simp add: tier_layout_def)
  then show ?thesis
    using assms(2) by (simp add: ispSetSCKOption_transport_delay)
qed

text \<open>
  Claim C4. With the tiers numbered as \<open>tier_layout\<close> says: for every option at or above
  the hardware cutoff \<open>USBASP_ISP_SCK_93_75\<close>, \<open>ispSetSCKOption\<close> selects the hardware
  transport. For every tier below the cutoff (from \<open>USBASP_ISP_SCK_0_5\<close> up) it selects the
  software transport and sets \<open>sck_sw_delay\<close> to \<open>3 << (USBASP_ISP_SCK_32 - option)\<close>, a value
  that fits the byte; so of two such tiers the slower one gets the strictly larger delay.
\<close>

theorem ispSetSCKOption_selects_transport:
  assumes "tier_layout c"
  shows "(USBASP_ISP_SCK_93_75 c \<le> option \<longrightarrow> ispTransmit (ispSetSCKOption c option s) = Fn_hw)
    \<and> (USBASP_ISP_SCK_0_5 c \<le> option \<and> option < USBASP_ISP_SCK_93_75 c \<longrightarrow>
          ispTransmit (ispSetSCKOption c option s) = Fn_sw
          \<and> unat (sck_sw_delay (ispSetSCKOption c option s)) =
               3 * 2 ^ (unat (USBASP_ISP_SCK_32 c) - unat option))
    \<and> (USBASP_ISP_SCK_0_5 c \<le> o1 \<and> o1 < o2 \<and> o2 < USBASP_ISP_SCK_93_75 c \<longrightarrow>
          sck_sw_delay (ispSetSCKOption c o2 s2) < sck_sw_delay (ispSetSCKOption c o1 s1))"
proof -
  have m: "sck_sw_delay (ispSetSCKOption c o2 s2) < sck_sw_delay (ispSetSCKOption c o1 s1)"
    if h: "USBASP_ISP_SCK_0_5 c \<le> o1" "o1 < o2" "o2 < USBASP_ISP_SCK_93_75 c"
  proof -
    have r1: "USBASP_ISP_SCK_0_5 c \<le> o1" "o1 < USBASP_ISP_SCK_93_75 c"
      using h by auto
    have r2: "USBASP_ISP_SCK_0_5 c \<le> o2" "o2 < USBASP_ISP_SCK_93_75 c"
      using h by auto
    have d1: "unat (sck_sw_delay (ispSetSCKOption c o1 s1)) = 3 * 2 ^ (unat (USBASP_ISP_SCK_32 c) - unat o1)"
      by (rule sw_tier_config(2) [OF assms r1])
    have d2: "unat (sck_sw_delay (ispSetSCKOption c o2 s2)) = 3 * 2 ^ (unat (USBASP_ISP_SCK_32 c) - unat o2)"
      by (rule sw_tier_config(2) [OF assms r2])
    have "unat o1 < unat o2" "unat o2 \<le> unat (USBASP_ISP_SCK_32 c)"
      using h(2) sw_tier_facts(2) [OF assms r2] by (simp_all add: word_less_nat_alt word_le_nat_alt)
    then have "unat (USBASP_ISP_SCK_32 c) - unat o2 < unat (USBASP_ISP_SCK_32 c) - unat o1"
      by simp
    then have "(2::nat) ^ (unat (USBASP_ISP_SCK_32 c) - unat o2) < 2 ^ (unat (USBASP_ISP_SCK_32 c) - unat o1)"
      by (rule power_strict_increasing) simp
    then show ?thesis
      using d1 d2 by (simp add: word_less_nat_alt)
  qed
  show ?thesis
    using hw_tier_config [OF assms] sw_tier_config [OF assms] m by blast
qed

text \<open>
  On the concrete board: tier 9 is a hardware tier; tiers 3 and 4 are software tiers with
  delays 48 and 24.
\<close>

theorem ispSetSCKOption_selects_transport_witness:
  "tier_layout usbasp_consts
   \<and> ispTransmit (ispSetSCKOption usbasp_consts 9 power_on) = Fn_hw
   \<and> ispTransmit (ispSetSCKOption usbasp_consts 4 power_on) = Fn_sw
   \<and> unat (sck_sw_delay (ispSetSCKOption usbasp_consts 4 power_on)) = 24
   \<and> sck_sw_delay (ispSetSCKOption usbasp_consts 4 power_on)
        < sck_sw_delay (ispSetSCKOption usbasp_consts 3 power_on)"
proof -
  have l: "tier_layout usbasp_consts"
    by (simp add: tier_layout_def usbasp_consts_def)
  show ?thesis
    using l ispSetSCKOption_selects_transport [OF l, of 9 power_on 3 4 power_on power_on]
      ispSetSCKOption_selects_transport [OF l, of 4 power_on]
    by (simp add: usbasp_consts_def)
qed

section \<open>The handshake ladder\<close>

lemma attempts_trace: "trace (attempts c e f k s) = trace s @ concat (replicate k handshake)"
  by (induction k arbitrary: s) (simp_all add: attempt_trace)

lemma attempts_xfers: "xfers (attempts c e f k s) = xfers s + 4 * k"
  by (induction k arbitrary: s) (simp_all add: attempt_xfers)

lemma attempts_frame:
  "isp_hiaddr (attempts c e f k s) = isp_hiaddr s"
  "ispTransmit (attempts c e f k s) = ispTransmit s"
  "prog_sck (attempts c e f k s) = prog_sck s"
  "treads (attempts c e f k s) = treads s"
  "sck_sw_delay (attempts c e f k s) = sck_sw_delay s"
  "SPCR (attempts c e f k s) = SPCR s"
  "SPSR (attempts c e f k s) = SPSR s"
  by (induction k arbitrary: s; simp add: attempt_frame)+

lemma attempts_Suc: "attempts c e f (Suc k) s = snd (attempt c e f (attempts c e f k s))"
  by (induction k arbitrary: s) simp_all

text \<open>The three passes of the \<open>do\<close> loop, written out.\<close>

lemma do_tries_3:
  "do_tries c e f 3 s =
     (if miso e (xfers s + 2) = 0x53 then Inl (bump_speed c (attempts c e f 1 s))
      else if miso e (xfers s + 6) = 0x53 then Inl (bump_speed c (attempts c e f 2 s))
      else if miso e (xfers s + 10) = 0x53 then Inl (bump_speed c (attempts c e f 3 s))
      else Inr (attempts c e f 3 s))"
proof -
  define s1 where "s1 = snd (attempt c e f s)"
  define s2 where "s2 = snd (attempt c e f s1)"
  define s3 where "s3 = snd (attempt c e f s2)"
  have a1: "attempt c e f s = (miso e (xfers s + 2), s1)"
    using attempt_fst [of c e f s] by (simp add: s1_def prod_eq_iff)
  have a2: "attempt c e f s1 = (miso e (xfers s + 6), s2)"
    using attempt_fst [of c e f s1] by (simp add: s1_def s2_def prod_eq_iff attempt_xfers add.commute)
  have a3: "attempt c e f s2 = (miso e (xfers s + 10), s3)"
    using attempt_fst [of c e f s2] by (simp add: s1_def s2_def s3_def prod_eq_iff attempt_xfers add.commute)
  have t1: "do_tries c e f 1 s2 =
      (if miso e (xfers s + 10) = 0x53 then Inl (bump_speed c s3) else Inr s3)"
    by (subst do_tries.simps) (simp add: a3)
  have t2: "do_tries c e f 2 s1 =
      (if miso e (xfers s + 6) = 0x53 then Inl (bump_speed c s2) else do_tries c e f 1 s2)"
    by (subst do_tries.simps) (simp add: a2)
  have t3: "do_tries c e f 3 s =
      (if miso e (xfers s + 2) = 0x53 then Inl (bump_speed c s1) else do_tries c e f 2 s1)"
    by (subst do_tries.simps) (simp add: a1)
  have "attempts c e f 1 s = s1" "attempts c e f 2 s = s2" "attempts c e f 3 s = s3"
    by (simp_all add: s1_def s2_def s3_def numeral_2_eq_2 numeral_3_eq_3)
  then show ?thesis
    using t1 t2 t3 by simp
qed

lemma first_echo_3:
  "first_echo e base (3 + m) =
     (if miso e (base + 2) = 0x53 then Some 0
      else if miso e (base + 6) = 0x53 then Some 1
      else if miso e (base + 10) = 0x53 then Some 2
      else map_option (\<lambda>j. j + 3) (first_echo e (base + 12) m))"
proof -
  have h: "3 + m = Suc (Suc (Suc m))"
    by simp
  have n: "base + 4 + 2 = base + 6" "base + 4 + 4 + 2 = base + 10" "base + 4 + 4 + 4 = base + 12"
    by simp_all
  have u: "first_echo e base (3 + m) =
     (if miso e (base + 2) = 0x53 then Some 0
      else map_option Suc
        (if miso e (base + 6) = 0x53 then Some 0
         else map_option Suc
           (if miso e (base + 10) = 0x53 then Some 0
            else map_option Suc (first_echo e (base + 12) m))))"
    by (simp only: h first_echo.simps n)
  have c: "map_option Suc (map_option Suc (map_option Suc x)) = map_option (\<lambda>j. j + 3) x" for x
    by (cases x) simp_all
  show ?thesis
    unfolding u using c [of "first_echo e (base + 12) m"]
    by (cases "miso e (base + 2) = 0x53"; cases "miso e (base + 6) = 0x53";
        cases "miso e (base + 10) = 0x53") simp_all
qed

lemma first_echo_Some:
  "first_echo e base n = Some j \<Longrightarrow>
     j < n \<and> miso e (base + 4 * j + 2) = 0x53 \<and> (\<forall>i<j. miso e (base + 4 * i + 2) \<noteq> 0x53)"
proof (induction n arbitrary: base j)
  case 0
  then show ?case by simp
next
  case (Suc n)
  show ?case
  proof (cases "miso e (base + 2) = 0x53")
    case True
    with Suc.prems show ?thesis by simp
  next
    case False
    with Suc.prems obtain j' where j': "first_echo e (base + 4) n = Some j'" "j = Suc j'"
      by auto
    from Suc.IH [OF j'(1)] have ih: "j' < n" "miso e (base + 4 + 4 * j' + 2) = 0x53"
      "\<forall>i<j'. miso e (base + 4 + 4 * i + 2) \<noteq> 0x53"
      by simp_all
    have "\<forall>i<j. miso e (base + 4 * i + 2) \<noteq> 0x53"
    proof (intro allI impI)
      fix i assume "i < j"
      show "miso e (base + 4 * i + 2) \<noteq> 0x53"
      proof (cases i)
        case 0
        then show ?thesis using False by simp
      next
        case (Suc i')
        then have "i' < j'" using \<open>i < j\<close> j'(2) by simp
        then have "miso e (base + 4 + 4 * i' + 2) \<noteq> 0x53" using ih(3) by simp
        then show ?thesis using Suc by (simp add: add.assoc add.commute add.left_commute)
      qed
    qed
    moreover have "miso e (base + 4 * j + 2) = 0x53"
      using ih(2) j'(2) by (simp add: add.assoc add.commute add.left_commute)
    ultimately show ?thesis
      using ih(1) j'(2) by simp
  qed
qed

lemma first_echo_None:
  "first_echo e base n = None \<longleftrightarrow> (\<forall>j<n. miso e (base + 4 * j + 2) \<noteq> 0x53)"
proof (induction n arbitrary: base)
  case 0
  then show ?case by simp
next
  case (Suc n)
  have "(\<forall>j<Suc n. miso e (base + 4 * j + 2) \<noteq> 0x53)
      \<longleftrightarrow> miso e (base + 2) \<noteq> 0x53 \<and> (\<forall>j<n. miso e (base + 4 * Suc j + 2) \<noteq> 0x53)"
    by (simp only: All_less_Suc2) simp
  also have "\<dots> \<longleftrightarrow> miso e (base + 2) \<noteq> 0x53 \<and> (\<forall>j<n. miso e (base + 4 + 4 * j + 2) \<noteq> 0x53)"
    by (simp add: add.assoc add.commute add.left_commute)
  finally show ?case
    using Suc.IH [of "base + 4"] by simp
qed


lemma link_speed_set:
  "link_speed (ispSetSCKOption c option s) = link_speed (ispSetSCKOption c option s')"
  by (simp only: link_speed_def ispSetSCKOption_transport_delay)

lemma tiers_from_pred:
  assumes "USBASP_ISP_SCK_0_5 c \<noteq> 0" and "USBASP_ISP_SCK_0_5 c \<le> p"
  shows "tiers_from c (p - 1) = tiers_from c p - 1"
    and "\<not> USBASP_ISP_SCK_0_5 c \<le> p - 1 \<Longrightarrow> p = USBASP_ISP_SCK_0_5 c"
proof -
  have l: "unat (USBASP_ISP_SCK_0_5 c) \<noteq> 0"
    using assms(1) by (simp add: unat_eq_0)
  have lp: "unat (USBASP_ISP_SCK_0_5 c) \<le> unat p"
    using assms(2) by (simp add: word_le_nat_alt)
  have "p \<noteq> 0"
    using l lp by auto
  then have pm: "unat (p - 1) = unat p - 1"
    by (rule unat_minus_one)
  show "tiers_from c (p - 1) = tiers_from c p - 1"
    using l lp pm assms(2) by (auto simp add: tiers_from_def word_le_nat_alt)
  show "p = USBASP_ISP_SCK_0_5 c" if "\<not> USBASP_ISP_SCK_0_5 c \<le> p - 1"
  proof -
    have "unat p = unat (USBASP_ISP_SCK_0_5 c)"
      using that l lp pm by (simp add: word_le_nat_alt)
    then show ?thesis
      by (simp add: word_unat_eq_iff)
  qed
qed

lemma tier_loop_ladder:
  assumes "USBASP_ISP_SCK_0_5 c \<noteq> 0" and "tiers_from c (prog_sck s) = T"
  shows "\<exists>r s'. tier_loop c e s = Some (r, s') \<and>
     (case first_echo e (xfers s) (3 * T) of
        Some j \<Rightarrow> r = 0 \<and> trace s' = trace s @ concat (replicate (Suc j) handshake)
           \<and> prog_sck s' = prog_sck s - of_nat (j div 3)
           \<and> (\<not> DANGEROUS_MODE c \<longrightarrow> link_speed s' =
                 (if j < 3 then link_speed s
                  else link_speed (ispSetSCKOption c (prog_sck s') s)))
      | None \<Rightarrow> r = 1 \<and> trace s' = trace s @ concat (replicate (3 * T) handshake)
           \<and> prog_sck s' = (if USBASP_ISP_SCK_0_5 c \<le> prog_sck s
                             then USBASP_ISP_SCK_0_5 c - 1 else prog_sck s))"
  using assms(2)
proof (induction T arbitrary: s)
  case 0
  then have "\<not> USBASP_ISP_SCK_0_5 c \<le> prog_sck s"
    by (simp add: tiers_from_def split: if_splits)
  then have "tier_loop c e s = Some (1, s)"
    by (subst tier_loop.simps) simp
  then show ?case
    using \<open>\<not> USBASP_ISP_SCK_0_5 c \<le> prog_sck s\<close> by simp
next
  case (Suc T)
  then have le: "USBASP_ISP_SCK_0_5 c \<le> prog_sck s"
    by (simp add: tiers_from_def split: if_splits)
  define f where "f = ispTransmit s"
  define s1 where "s1 = (if ispTransmit s = Fn_hw then spiHWenable c s else s)"
  define nxt where "nxt = (\<lambda>s2. ispSetSCKOption c (prog_sck s2 - 1)
      (spiHWdisable s2\<lparr>prog_sck := prog_sck s2 - 1\<rparr>))"
  have s1: "trace s1 = trace s" "xfers s1 = xfers s" "prog_sck s1 = prog_sck s"
    by (simp_all add: s1_def spiHW_frame)
  have ls1: "link_speed s1 = link_speed s"
    by (simp add: s1_def link_speed_def spiHWenable_def)
  have U: "tier_loop c e s =
      (case do_tries c e f 3 s1 of Inl s2 \<Rightarrow> Some (0, s2) | Inr s2 \<Rightarrow> tier_loop c e (nxt s2))"
    by (subst tier_loop.simps)
      (simp add: le Let_def f_def s1_def nxt_def spiHW_frame split: sum.splits)
  have D: "do_tries c e f 3 s1 =
     (if miso e (xfers s + 2) = 0x53 then Inl (bump_speed c (attempts c e f 1 s1))
      else if miso e (xfers s + 6) = 0x53 then Inl (bump_speed c (attempts c e f 2 s1))
      else if miso e (xfers s + 10) = 0x53 then Inl (bump_speed c (attempts c e f 3 s1))
      else Inr (attempts c e f 3 s1))"
    using do_tries_3 [of c e f s1] by (simp only: s1(2))
  have "3 * Suc T = 3 + 3 * T"
    by simp
  then have F: "first_echo e (xfers s) (3 * Suc T) =
     (if miso e (xfers s + 2) = 0x53 then Some 0
      else if miso e (xfers s + 6) = 0x53 then Some 1
      else if miso e (xfers s + 10) = 0x53 then Some 2
      else map_option (\<lambda>j. j + 3) (first_echo e (xfers s + 12) (3 * T)))"
    by (simp only: first_echo_3)
  have ok: "\<exists>r s'. tier_loop c e s = Some (r, s') \<and>
      r = 0 \<and> trace s' = trace s @ concat (replicate (Suc j) handshake)
           \<and> prog_sck s' = prog_sck s - of_nat (j div 3)
           \<and> (\<not> DANGEROUS_MODE c \<longrightarrow> link_speed s' =
                 (if j < 3 then link_speed s
                  else link_speed (ispSetSCKOption c (prog_sck s') s)))"
    if "do_tries c e f 3 s1 = Inl (bump_speed c (attempts c e f (Suc j) s1))" and "j < 3" for j
  proof -
    have "link_speed (attempts c e f (Suc j) s1) = link_speed s"
      using ls1 by (simp only: link_speed_def attempts_frame)
    then have "\<not> DANGEROUS_MODE c \<longrightarrow>
        link_speed (bump_speed c (attempts c e f (Suc j) s1)) = link_speed s"
      by (cases "DANGEROUS_MODE c") (simp_all only: bump_speed_def if_False simp_thms)
    moreover
    have "tier_loop c e s = Some (0, bump_speed c (attempts c e f (Suc j) s1))"
      using U that(1) by simp
    moreover have "trace (bump_speed c (attempts c e f (Suc j) s1))
        = trace s @ concat (replicate (Suc j) handshake)"
      by (simp only: bump_speed_frame attempts_trace s1)
    moreover have "prog_sck (bump_speed c (attempts c e f (Suc j) s1)) = prog_sck s"
      by (simp only: bump_speed_frame attempts_frame s1)
    moreover have "j div 3 = 0"
      using that(2) by simp
    ultimately show ?thesis
      using that(2) by simp
  qed
  consider (a) "miso e (xfers s + 2) = 0x53"
    | (b) "miso e (xfers s + 2) \<noteq> 0x53" "miso e (xfers s + 6) = 0x53"
    | (c) "miso e (xfers s + 2) \<noteq> 0x53" "miso e (xfers s + 6) \<noteq> 0x53" "miso e (xfers s + 10) = 0x53"
    | (d) "miso e (xfers s + 2) \<noteq> 0x53" "miso e (xfers s + 6) \<noteq> 0x53" "miso e (xfers s + 10) \<noteq> 0x53"
    by blast
  then show ?case
  proof cases
    case a
    then have "first_echo e (xfers s) (3 * Suc T) = Some 0"
      using F by simp
    moreover have "do_tries c e f 3 s1 = Inl (bump_speed c (attempts c e f (Suc 0) s1))"
      using D a by simp
    ultimately show ?thesis
      using ok [of 0] by simp
  next
    case b
    then have "first_echo e (xfers s) (3 * Suc T) = Some 1"
      using F by simp
    moreover have "do_tries c e f 3 s1 = Inl (bump_speed c (attempts c e f (Suc 1) s1))"
      using D b by (simp add: numeral_2_eq_2)
    ultimately show ?thesis
      using ok [of 1] by simp
  next
    case c
    then have "first_echo e (xfers s) (3 * Suc T) = Some 2"
      using F by simp
    moreover have "do_tries c e f 3 s1 = Inl (bump_speed c (attempts c e f (Suc 2) s1))"
      using D c by (simp add: numeral_3_eq_3 numeral_2_eq_2)
    ultimately show ?thesis
      using ok [of 2] by simp
  next
    case d
    define s5 where "s5 = nxt (attempts c e f 3 s1)"
    have F': "first_echo e (xfers s) (3 * Suc T) =
        map_option (\<lambda>j. j + 3) (first_echo e (xfers s + 12) (3 * T))"
      using F d by simp
    have "do_tries c e f 3 s1 = Inr (attempts c e f 3 s1)"
      using D d by simp
    then have U': "tier_loop c e s = tier_loop c e s5"
      using U by (simp add: s5_def)
    have t5: "trace s5 = trace (attempts c e f 3 s1)"
      by (simp add: s5_def nxt_def ispSetSCKOption_frame spiHWdisable_def)
    then have "xfers s5 = xfers (attempts c e f 3 s1)"
      by (simp add: xfers_def)
    then have x5: "xfers s5 = xfers s + 12"
      by (simp only: attempts_xfers s1)
    have s5: "trace s5 = trace s @ concat (replicate 3 handshake)" "xfers s5 = xfers s + 12"
      "prog_sck s5 = prog_sck s - 1"
      using t5 x5
      by (simp_all add: s5_def nxt_def ispSetSCKOption_frame
          spiHWdisable_def attempts_trace attempts_frame s1)
    have "tiers_from c (prog_sck s5) = T"
      using tiers_from_pred(1) [OF assms(1) le] Suc.prems by (simp add: s5(3))
    from Suc.IH [OF this] obtain r s' where r: "tier_loop c e s5 = Some (r, s')"
      and o: "(case first_echo e (xfers s5) (3 * T) of
        Some j \<Rightarrow> r = 0 \<and> trace s' = trace s5 @ concat (replicate (Suc j) handshake)
           \<and> prog_sck s' = prog_sck s5 - of_nat (j div 3)
           \<and> (\<not> DANGEROUS_MODE c \<longrightarrow> link_speed s' =
                 (if j < 3 then link_speed s5
                  else link_speed (ispSetSCKOption c (prog_sck s') s5)))
      | None \<Rightarrow> r = 1 \<and> trace s' = trace s5 @ concat (replicate (3 * T) handshake)
           \<and> prog_sck s' = (if USBASP_ISP_SCK_0_5 c \<le> prog_sck s5
                             then USBASP_ISP_SCK_0_5 c - 1 else prog_sck s5))"
      by blast
    have "case first_echo e (xfers s) (3 * Suc T) of
        Some j \<Rightarrow> r = 0 \<and> trace s' = trace s @ concat (replicate (Suc j) handshake)
           \<and> prog_sck s' = prog_sck s - of_nat (j div 3)
           \<and> (\<not> DANGEROUS_MODE c \<longrightarrow> link_speed s' =
                 (if j < 3 then link_speed s
                  else link_speed (ispSetSCKOption c (prog_sck s') s)))
      | None \<Rightarrow> r = 1 \<and> trace s' = trace s @ concat (replicate (3 * Suc T) handshake)
           \<and> prog_sck s' = (if USBASP_ISP_SCK_0_5 c \<le> prog_sck s
                             then USBASP_ISP_SCK_0_5 c - 1 else prog_sck s)"
    proof (cases "first_echo e (xfers s + 12) (3 * T)")
      case None
      then have "r = 1" "trace s' = trace s5 @ concat (replicate (3 * T) handshake)"
        "prog_sck s' = (if USBASP_ISP_SCK_0_5 c \<le> prog_sck s - 1
                             then USBASP_ISP_SCK_0_5 c - 1 else prog_sck s - 1)"
        using o by (simp_all add: s5)
      moreover have "concat (replicate 3 handshake) @ concat (replicate (3 * T) handshake)
          = concat (replicate (3 * Suc T) handshake)"
        by (simp add: replicate_add [symmetric] flip: concat_append)
      moreover have "(if USBASP_ISP_SCK_0_5 c \<le> prog_sck s - 1
                             then USBASP_ISP_SCK_0_5 c - 1 else prog_sck s - 1) = USBASP_ISP_SCK_0_5 c - 1"
        using tiers_from_pred(2) [OF assms(1) le] by auto
      ultimately show ?thesis
        using None F' le by (simp add: s5(1))
    next
      case (Some j)
      then have "r = 0" "trace s' = trace s5 @ concat (replicate (Suc j) handshake)"
        "prog_sck s' = prog_sck s - 1 - of_nat (j div 3)"
        using o by (simp_all add: s5)
      moreover have "\<not> DANGEROUS_MODE c \<longrightarrow>
          link_speed s' = link_speed (ispSetSCKOption c (prog_sck s') s)"
      proof
        assume nd: "\<not> DANGEROUS_MODE c"
        have "link_speed s5 = link_speed (ispSetSCKOption c (prog_sck (attempts c e f 3 s1) - 1) s)"
          unfolding s5_def nxt_def by (rule link_speed_set)
        then have l5: "link_speed s5 = link_speed (ispSetSCKOption c (prog_sck s5) s)"
          by (simp only: s5(3) attempts_frame s1)
        have ls: "link_speed s' = (if j < 3 then link_speed s5
            else link_speed (ispSetSCKOption c (prog_sck s') s5))"
          using o Some nd by (simp add: s5(2))
        have pj: "prog_sck s' = prog_sck s5" if "j < 3"
          using o Some that by (simp add: s5(2))
        show "link_speed s' = link_speed (ispSetSCKOption c (prog_sck s') s)"
        proof (cases "j < 3")
          case True
          then show ?thesis
            using ls l5 by (simp only: pj [OF True] if_True)
        next
          case False
          then show ?thesis
            using ls by (simp only: if_False link_speed_set [of c "prog_sck s'" s5 s])
        qed
      qed
      moreover have "concat (replicate 3 handshake) @ concat (replicate (Suc j) handshake)
          = concat (replicate (Suc (j + 3)) handshake)"
        by (simp add: numeral_3_eq_3)
      moreover have "(j + 3) div 3 = Suc (j div 3)"
        by presburger
      then have "prog_sck s - 1 - of_nat (j div 3) = prog_sck s - of_nat ((j + 3) div 3)"
        by simp
      ultimately show ?thesis
        using Some F' by (simp add: s5(1))
    qed
    then show ?thesis
      using U' r by simp
  qed
qed


text \<open>
  Claim C3. Provided the slowest tier \<open>USBASP_ISP_SCK_0_5\<close> is not numbered 0,
  \<open>ispEnterProgrammingMode\<close> always returns. It starts at \<open>start_tier\<close> and makes up to 3
  attempts per tier, \<open>3 * tiers_from\<close> attempts at most; each attempt pulses reset
  (high, \<open>clockWait(1)\<close>, low), waits \<open>clockWait(62)\<close> and sends 0xAC, 0x53, 0x00, 0x00
  (\<open>handshake\<close>). It returns 0 exactly when some attempt's third byte is echoed as 0x53:
  it then stops with the first such attempt \<open>j\<close>, having made \<open>j + 1\<close> attempts, at the
  tier \<open>j div 3\<close> steps below the start. Built without \<open>DANGEROUS_MODE\<close>, a success
  below the start tier leaves the transport and bit delay that \<open>ispSetSCKOption\<close>
  selects for the tier reached, and a success at the start tier leaves those found on
  entry. It returns 1 exactly when none is, after all the attempts, with \<open>prog_sck\<close>
  one below the slowest tier.
\<close>

theorem ispEnterProgrammingMode_ladder:
  assumes "USBASP_ISP_SCK_0_5 c \<noteq> 0"
  shows "\<exists>r s'. ispEnterProgrammingMode c e s = Some (r, s')
     \<and> (r = 0 \<longleftrightarrow>
          (\<exists>j < 3 * tiers_from c (start_tier c s). miso e (xfers s + 4 * j + 2) = 0x53))
     \<and> (r = 1 \<longleftrightarrow>
          (\<forall>j < 3 * tiers_from c (start_tier c s). miso e (xfers s + 4 * j + 2) \<noteq> 0x53))
     \<and> (case first_echo e (xfers s) (3 * tiers_from c (start_tier c s)) of
          Some j \<Rightarrow>
            j < 3 * tiers_from c (start_tier c s) \<and> miso e (xfers s + 4 * j + 2) = 0x53
            \<and> (\<forall>i<j. miso e (xfers s + 4 * i + 2) \<noteq> 0x53)
            \<and> r = 0 \<and> trace s' = trace s @ concat (replicate (Suc j) handshake)
            \<and> prog_sck s' = start_tier c s - of_nat (j div 3)
            \<and> (\<not> DANGEROUS_MODE c \<longrightarrow> link_speed s' =
                  (if j < 3 then link_speed s
                   else link_speed (ispSetSCKOption c (prog_sck s') s)))
        | None \<Rightarrow>
            r = 1
            \<and> trace s' = trace s @ concat (replicate (3 * tiers_from c (start_tier c s)) handshake)
            \<and> prog_sck s' = (if USBASP_ISP_SCK_0_5 c \<le> start_tier c s
                              then USBASP_ISP_SCK_0_5 c - 1 else start_tier c s))"
proof -
  define s0 where "s0 = (if prog_sck s = 0 then s\<lparr>prog_sck := USBASP_ISP_SCK_1500 c\<rparr> else s)"
  define n where "n = 3 * tiers_from c (start_tier c s)"
  have s0: "prog_sck s0 = start_tier c s" "trace s0 = trace s" "xfers s0 = xfers s"
    by (simp_all add: s0_def start_tier_def xfers_def)
  have l0: "link_speed s0 = link_speed s"
    "\<And>p. link_speed (ispSetSCKOption c p s0) = link_speed (ispSetSCKOption c p s)"
    by (simp add: s0_def link_speed_def, rule link_speed_set)
  have "tiers_from c (prog_sck s0) = tiers_from c (start_tier c s)"
    by (simp only: s0)
  from tier_loop_ladder [OF assms this, of e] obtain r s' where
    r: "tier_loop c e s0 = Some (r, s')"
    and o: "(case first_echo e (xfers s) n of
        Some j \<Rightarrow> r = 0 \<and> trace s' = trace s @ concat (replicate (Suc j) handshake)
           \<and> prog_sck s' = start_tier c s - of_nat (j div 3)
           \<and> (\<not> DANGEROUS_MODE c \<longrightarrow> link_speed s' =
                 (if j < 3 then link_speed s
                  else link_speed (ispSetSCKOption c (prog_sck s') s)))
      | None \<Rightarrow> r = 1 \<and> trace s' = trace s @ concat (replicate n handshake)
           \<and> prog_sck s' = (if USBASP_ISP_SCK_0_5 c \<le> start_tier c s
                             then USBASP_ISP_SCK_0_5 c - 1 else start_tier c s))"
    unfolding s0 l0 n_def by blast
  have E: "ispEnterProgrammingMode c e s = Some (r, s')"
    using r by (simp add: ispEnterProgrammingMode_def s0_def)
  show ?thesis
  proof (cases "first_echo e (xfers s) n")
    case None
    then have no: "\<forall>j<n. miso e (xfers s + 4 * j + 2) \<noteq> 0x53"
      by (simp add: first_echo_None)
    have "r = 1"
      using o None by simp
    then have "(r = 0 \<longleftrightarrow> (\<exists>j<n. miso e (xfers s + 4 * j + 2) = 0x53))
       \<and> (r = 1 \<longleftrightarrow> (\<forall>j<n. miso e (xfers s + 4 * j + 2) \<noteq> 0x53))"
      using no by auto
    then show ?thesis
      using E o None unfolding n_def by simp
  next
    case (Some j)
    from first_echo_Some [OF Some] have j: "j < n" "miso e (xfers s + 4 * j + 2) = 0x53"
      "\<forall>i<j. miso e (xfers s + 4 * i + 2) \<noteq> 0x53"
      by simp_all
    have "r = 0"
      using o Some by simp
    then have "(r = 0 \<longleftrightarrow> (\<exists>j<n. miso e (xfers s + 4 * j + 2) = 0x53))
       \<and> (r = 1 \<longleftrightarrow> (\<forall>j<n. miso e (xfers s + 4 * j + 2) \<noteq> 0x53))"
      using j by auto
    then show ?thesis
      using E o Some j unfolding n_def by simp
  qed
qed

text \<open>
  On the concrete board with no speed configured, against the target that answers from
  exchange 132 on: the ladder starts at tier 12, fails 33 times, and succeeds with the
  first attempt at tier 1, the slowest.
\<close>

theorem ispEnterProgrammingMode_ladder_witness:
  "USBASP_ISP_SCK_0_5 usbasp_consts \<noteq> 0
   \<and> (\<exists>s'. ispEnterProgrammingMode usbasp_consts slow_target power_on = Some (0, s')
         \<and> trace s' = concat (replicate 34 handshake) \<and> prog_sck s' = 1
         \<and> link_speed s' = (Fn_sw, 192))"
proof -
  have l: "USBASP_ISP_SCK_0_5 usbasp_consts \<noteq> 0"
    by (simp add: usbasp_consts_def)
  have t: "3 * tiers_from usbasp_consts (start_tier usbasp_consts power_on) = 36"
    by (simp add: tiers_from_def start_tier_def usbasp_consts_def power_on_def)
  have x: "xfers power_on = 0" "trace power_on = []"
    by (simp_all add: xfers_def power_on_def)
  have f: "first_echo slow_target 0 36 = Some 33"
    by code_simp
  have st: "start_tier usbasp_consts power_on = 12"
    by (simp add: start_tier_def usbasp_consts_def power_on_def)
  have d: "\<not> DANGEROUS_MODE usbasp_consts"
    by (simp add: usbasp_consts_def)
  have k: "link_speed (ispSetSCKOption usbasp_consts 1 power_on) = (Fn_sw, 192)"
    by (simp add: link_speed_def ispSetSCKOption_def usbasp_consts_def Let_def
        word_le_nat_alt word_less_nat_alt)
  show ?thesis
    using l ispEnterProgrammingMode_ladder [OF l, of slow_target power_on]
    unfolding t x f by (auto simp add: st d k)
qed

section \<open>The default tier\<close>

lemma first_attempt_succeeds:
  assumes "USBASP_ISP_SCK_0_5 c \<le> prog_sck s" and "miso e (xfers s + 2) = 0x53"
    and "\<not> DANGEROUS_MODE c"
  shows "tier_loop c e s =
    Some (0, snd (attempt c e (ispTransmit s)
      (if ispTransmit s = Fn_hw then spiHWenable c s else s)))"
proof -
  define s1 where "s1 = (if ispTransmit s = Fn_hw then spiHWenable c s else s)"
  have x: "xfers s1 = xfers s"
    by (simp add: s1_def spiHW_frame)
  have "do_tries c e (ispTransmit s) 3 s1 = Inl (bump_speed c (attempts c e (ispTransmit s) 1 s1))"
    using assms(2) by (simp add: do_tries_3 x)
  moreover have "bump_speed c (attempts c e (ispTransmit s) 1 s1) = snd (attempt c e (ispTransmit s) s1)"
    using assms(3) by (simp add: bump_speed_def)
  ultimately show ?thesis
    unfolding s1_def [symmetric]
    by (subst tier_loop.simps) (simp add: assms(1) Let_def s1_def [symmetric])
qed

text \<open>
  Claim C7, as amended. \<open>ispSetSCKOption\<close> treats the automatic request exactly as
  \<open>USBASP_ISP_SCK_1500\<close>. \<open>ispEnterProgrammingMode\<close> entered with \<open>prog_sck\<close> at 0 behaves as
  if \<open>prog_sck\<close> had been \<open>USBASP_ISP_SCK_1500\<close>: it stores that tier in \<open>prog_sck\<close> and does
  not call \<open>ispSetSCKOption\<close> before the first attempt. The first attempt runs on the
  transport, the bit delay and the clock registers that were in effect on entry (with
  the peripheral enabled if that transport is the hardware one), as the state after a
  first attempt that succeeds shows.
\<close>

theorem ispEnterProgrammingMode_default_tier:
  "ispSetSCKOption c (USBASP_ISP_SCK_AUTO c) s = ispSetSCKOption c (USBASP_ISP_SCK_1500 c) s
   \<and> (prog_sck s = 0 \<longrightarrow>
        ispEnterProgrammingMode c e s =
          ispEnterProgrammingMode c e (s\<lparr>prog_sck := USBASP_ISP_SCK_1500 c\<rparr>))
   \<and> (prog_sck s = 0 \<and> USBASP_ISP_SCK_0_5 c \<le> USBASP_ISP_SCK_1500 c
        \<and> miso e (xfers s + 2) = 0x53 \<and> \<not> DANGEROUS_MODE c \<longrightarrow>
        (\<exists>s'. ispEnterProgrammingMode c e s = Some (0, s')
           \<and> trace s' = trace s @ handshake
           \<and> prog_sck s' = USBASP_ISP_SCK_1500 c
           \<and> ispTransmit s' = ispTransmit s
           \<and> sck_sw_delay s' = sck_sw_delay s
           \<and> SPSR s' = SPSR s
           \<and> SPCR s' = (if ispTransmit s = Fn_hw
                         then SPCR s OR (bit8 (SPE c) OR bit8 (MSTR c)) else SPCR s)))"
proof -
  have a: "ispSetSCKOption c (USBASP_ISP_SCK_AUTO c) s = ispSetSCKOption c (USBASP_ISP_SCK_1500 c) s"
    by (simp add: ispSetSCKOption_def)
  have b: "prog_sck s = 0 \<longrightarrow>
        ispEnterProgrammingMode c e s =
          ispEnterProgrammingMode c e (s\<lparr>prog_sck := USBASP_ISP_SCK_1500 c\<rparr>)"
    by (simp add: ispEnterProgrammingMode_def)
  have d: "\<exists>s'. ispEnterProgrammingMode c e s = Some (0, s')
           \<and> trace s' = trace s @ handshake
           \<and> prog_sck s' = USBASP_ISP_SCK_1500 c
           \<and> ispTransmit s' = ispTransmit s
           \<and> sck_sw_delay s' = sck_sw_delay s
           \<and> SPSR s' = SPSR s
           \<and> SPCR s' = (if ispTransmit s = Fn_hw
                         then SPCR s OR (bit8 (SPE c) OR bit8 (MSTR c)) else SPCR s)"
    if h: "prog_sck s = 0" "USBASP_ISP_SCK_0_5 c \<le> USBASP_ISP_SCK_1500 c"
      "miso e (xfers s + 2) = 0x53" "\<not> DANGEROUS_MODE c"
  proof -
    define s0 where "s0 = s\<lparr>prog_sck := USBASP_ISP_SCK_1500 c\<rparr>"
    define s1 where "s1 = (if ispTransmit s0 = Fn_hw then spiHWenable c s0 else s0)"
    have s0: "USBASP_ISP_SCK_0_5 c \<le> prog_sck s0" "miso e (xfers s0 + 2) = 0x53"
      using h by (simp_all add: s0_def xfers_def)
    have E: "ispEnterProgrammingMode c e s = Some (0, snd (attempt c e (ispTransmit s0) s1))"
      using first_attempt_succeeds [OF s0 h(4)] h(1)
      by (simp add: ispEnterProgrammingMode_def s0_def s1_def)
    have s1: "trace s1 = trace s" "prog_sck s1 = USBASP_ISP_SCK_1500 c"
      "ispTransmit s1 = ispTransmit s" "sck_sw_delay s1 = sck_sw_delay s" "SPSR s1 = SPSR s"
      "SPCR s1 = (if ispTransmit s = Fn_hw
                         then SPCR s OR (bit8 (SPE c) OR bit8 (MSTR c)) else SPCR s)"
      by (simp_all add: s1_def s0_def spiHWenable_def)
    show ?thesis
      unfolding E by (simp add: attempt_trace attempt_frame s1)
  qed
  show ?thesis
    using a b d by blast
qed

text \<open>
  On the concrete board: tier 4 has been configured (software transport, delay 24) while
  \<open>prog_sck\<close> is still 0, and the target answers at once.
\<close>

theorem ispEnterProgrammingMode_default_tier_witness:
  "prog_sck (ispSetSCKOption usbasp_consts 4 power_on) = 0
   \<and> (\<exists>s'. ispEnterProgrammingMode usbasp_consts eager_target
              (ispSetSCKOption usbasp_consts 4 power_on) = Some (0, s')
         \<and> trace s' = handshake \<and> prog_sck s' = 12 \<and> ispTransmit s' = Fn_sw
         \<and> sck_sw_delay s' = 24)"
proof -
  have c: "ispTransmit (ispSetSCKOption usbasp_consts 4 power_on) = Fn_sw"
    "sck_sw_delay (ispSetSCKOption usbasp_consts 4 power_on) = 24"
    by (simp_all add: ispSetSCKOption_transport_delay usbasp_consts_def)
  have p: "prog_sck (ispSetSCKOption usbasp_consts 4 power_on) = 0"
    "trace (ispSetSCKOption usbasp_consts 4 power_on) = []"
    "xfers (ispSetSCKOption usbasp_consts 4 power_on) = 0"
    by (simp_all add: ispSetSCKOption_frame ispSetSCKOption_xfers power_on_def xfers_def)
  have h: "USBASP_ISP_SCK_0_5 usbasp_consts \<le> USBASP_ISP_SCK_1500 usbasp_consts"
    "miso eager_target (0 + 2) = 0x53" "\<not> DANGEROUS_MODE usbasp_consts"
    "USBASP_ISP_SCK_1500 usbasp_consts = 12"
    by (simp_all add: usbasp_consts_def eager_target_def)
  have "prog_sck (ispSetSCKOption usbasp_consts 4 power_on) = 0
      \<and> USBASP_ISP_SCK_0_5 usbasp_consts \<le> USBASP_ISP_SCK_1500 usbasp_consts
      \<and> miso eager_target (xfers (ispSetSCKOption usbasp_consts 4 power_on) + 2) = 0x53
      \<and> \<not> DANGEROUS_MODE usbasp_consts"
    using p h by simp
  with ispEnterProgrammingMode_default_tier
      [of usbasp_consts "ispSetSCKOption usbasp_consts 4 power_on" eager_target]
  obtain s' where s': "ispEnterProgrammingMode usbasp_consts eager_target
              (ispSetSCKOption usbasp_consts 4 power_on) = Some (0, s')"
    "trace s' = trace (ispSetSCKOption usbasp_consts 4 power_on) @ handshake"
    "prog_sck s' = USBASP_ISP_SCK_1500 usbasp_consts"
    "ispTransmit s' = ispTransmit (ispSetSCKOption usbasp_consts 4 power_on)"
    "sck_sw_delay s' = sck_sw_delay (ispSetSCKOption usbasp_consts 4 power_on)"
    by blast
  have "trace s' = handshake \<and> prog_sck s' = 12 \<and> ispTransmit s' = Fn_sw
         \<and> sck_sw_delay s' = 24"
    using s'(2-5) p c h(4) by simp
  then show ?thesis
    using s'(1) p(1) by blast
qed

text \<open>
  The claim as it was stated fails on that run: \<open>ispEnterProgrammingMode\<close> returns success
  with the software transport and delay 24 still in effect, whereas configuring the
  default tier gives the hardware transport, delay 1 and the clock registers of 1.5 MHz.
\<close>

theorem default_tier_not_configured_counterexample:
  "prog_sck (ispSetSCKOption usbasp_consts 4 power_on) = 0
   \<and> map_option (speed_config \<circ> snd)
        (ispEnterProgrammingMode usbasp_consts eager_target
           (ispSetSCKOption usbasp_consts 4 power_on)) = Some (Fn_sw, 24, 0, 0)
   \<and> speed_config (ispSetSCKOption usbasp_consts (USBASP_ISP_SCK_1500 usbasp_consts)
        (ispSetSCKOption usbasp_consts 4 power_on)) = (Fn_hw, 1, 1, 1)"
proof -
  let ?s = "ispSetSCKOption usbasp_consts 4 power_on"
  have s: "?s = power_on\<lparr>ispTransmit := Fn_sw, sck_sw_delay := 24\<rparr>"
    by (simp add: ispSetSCKOption_def usbasp_consts_def Let_def)
  have p: "prog_sck ?s = 0" "xfers ?s = 0"
    by (simp_all add: ispSetSCKOption_frame ispSetSCKOption_xfers power_on_def xfers_def)
  have l: "USBASP_ISP_SCK_0_5 usbasp_consts \<le> prog_sck (?s\<lparr>prog_sck := USBASP_ISP_SCK_1500 usbasp_consts\<rparr>)"
    "miso eager_target (xfers (?s\<lparr>prog_sck := USBASP_ISP_SCK_1500 usbasp_consts\<rparr>) + 2) = 0x53"
    "\<not> DANGEROUS_MODE usbasp_consts"
    using p(2) by (simp_all add: usbasp_consts_def eager_target_def xfers_def)
  have "speed_config ?s = (Fn_sw, 24, 0, 0)"
    unfolding s by (simp add: speed_config_def power_on_def)
  then have "speed_config (snd (attempt usbasp_consts eager_target Fn_sw
      (?s\<lparr>prog_sck := USBASP_ISP_SCK_1500 usbasp_consts\<rparr>))) = (Fn_sw, 24, 0, 0)"
    by (simp add: speed_config_def attempt_frame)
  then have "map_option (speed_config \<circ> snd)
        (ispEnterProgrammingMode usbasp_consts eager_target ?s) = Some (Fn_sw, 24, 0, 0)"
    using first_attempt_succeeds [OF l] p(1)
    by (simp add: ispEnterProgrammingMode_def s)
  moreover have "speed_config (ispSetSCKOption usbasp_consts (USBASP_ISP_SCK_1500 usbasp_consts) ?s)
      = (Fn_hw, 1, 1, 1)"
    by (simp add: speed_config_def ispSetSCKOption_def usbasp_consts_def Let_def bit8_def power_on_def)
  ultimately show ?thesis
    using p(1) by simp
qed

section \<open>The polling loop\<close>






























section \<open>The operations return, and what they return\<close>




end
